theory Spec2Isabelle
  imports Complex_Main
begin

section \<open>Arrays\<close>

text \<open>
  The program computes with numpy arrays of floats. Floats are modelled as reals, a
  one-dimensional array as a list, a two-dimensional array as its list of rows together
  with its number of columns (an array with no rows still has a shape in numpy).
  Exceptions of Python and numpy are values of \<open>error\<close>. An operation on two arrays of
  different shapes returns \<open>ValueError\<close>. (numpy also accepts an operand that has length one
  along an axis where the other is longer, and repeats it; the data model gives the
  operands of every such operation equal shapes, and the theorems assume them.)
\<close>

datatype error = LinAlgError | ValueError | IndexError

type_synonym vec = "real list"

datatype mat = Mat (ncols: nat) (rows: "real list list")

definition nrows :: "mat \<Rightarrow> nat" where
  "nrows M = length (rows M)"

definition wf_mat :: "mat \<Rightarrow> bool" where
  "wf_mat M = list_all (\<lambda>r. length r = ncols M) (rows M)"

definition zeros_vec :: "nat \<Rightarrow> vec" where
  "zeros_vec d = replicate d 0"

definition zeros :: "nat \<Rightarrow> nat \<Rightarrow> mat" where
  "zeros r c = Mat c (replicate r (replicate c 0))"

definition dot :: "vec \<Rightarrow> vec \<Rightarrow> real" where
  "dot a b = sum_list (map2 (*) a b)"

text \<open>\<open>np.linalg.norm\<close> of a one-dimensional array.\<close>

definition vnorm :: "vec \<Rightarrow> real" where
  "vnorm v = sqrt (sum_list (map (\<lambda>x. x * x) v))"

definition vadd :: "vec \<Rightarrow> vec \<Rightarrow> error + vec" where
  "vadd a b = (if length a = length b then Inr (map2 (+) a b) else Inl ValueError)"

definition vsub :: "vec \<Rightarrow> vec \<Rightarrow> error + vec" where
  "vsub a b = (if length a = length b then Inr (map2 (-) a b) else Inl ValueError)"

definition vscale :: "real \<Rightarrow> vec \<Rightarrow> vec" where
  "vscale c v = map (\<lambda>x. x * c) v"

definition same_shape :: "mat \<Rightarrow> mat \<Rightarrow> bool" where
  "same_shape A B = (nrows A = nrows B \<and> ncols A = ncols B)"

definition madd :: "mat \<Rightarrow> mat \<Rightarrow> error + mat" where
  "madd A B = (if same_shape A B then Inr (Mat (ncols A) (map2 (map2 (+)) (rows A) (rows B)))
               else Inl ValueError)"

definition msub :: "mat \<Rightarrow> mat \<Rightarrow> error + mat" where
  "msub A B = (if same_shape A B then Inr (Mat (ncols A) (map2 (map2 (-)) (rows A) (rows B)))
               else Inl ValueError)"

definition mscale :: "real \<Rightarrow> mat \<Rightarrow> mat" where
  "mscale c M = Mat (ncols M) (map (map (\<lambda>x. x * c)) (rows M))"

text \<open>The product \<open>M @ v\<close> of a matrix and a one-dimensional array.\<close>

definition matvec :: "mat \<Rightarrow> vec \<Rightarrow> error + vec" where
  "matvec M v = (if ncols M = length v then Inr (map (\<lambda>r. dot r v) (rows M)) else Inl ValueError)"

definition column :: "mat \<Rightarrow> nat \<Rightarrow> vec" where
  "column M j = map (\<lambda>r. r ! j) (rows M)"

definition matmul :: "mat \<Rightarrow> mat \<Rightarrow> error + mat" where
  "matmul A B =
     (if ncols A = nrows B
      then Inr (Mat (ncols B) (map (\<lambda>r. map (\<lambda>j. dot r (column B j)) [0..<ncols B]) (rows A)))
      else Inl ValueError)"

definition mtranspose :: "mat \<Rightarrow> mat" where
  "mtranspose M = Mat (nrows M) (map (column M) [0..<ncols M])"

subsection \<open>Slices and stacking\<close>

text \<open>
  \<open>v[a:b]\<close> and \<open>M[r0:r1, c0:c1]\<close> for bounds \<open>0 \<le> a \<le> b\<close>: a slice is cut at the end of
  the array. An open end (\<open>v[a:]\<close>, \<open>M[r0:, c0:c1]\<close>) is the slice up to the array's length.
\<close>

definition vslice :: "vec \<Rightarrow> nat \<Rightarrow> nat \<Rightarrow> vec" where
  "vslice v a b = take (b - a) (drop a v)"

definition mslice :: "mat \<Rightarrow> nat \<Rightarrow> nat \<Rightarrow> nat \<Rightarrow> nat \<Rightarrow> mat" where
  "mslice M r0 r1 c0 c1 =
     Mat (min (c1 - c0) (ncols M - c0))
       (map (\<lambda>row. take (c1 - c0) (drop c0 row)) (take (r1 - r0) (drop r0 (rows M))))"

text \<open>The in-place additions \<open>v[a:b] += x\<close> and \<open>M[r0:r1, c0:c1] += X\<close>.\<close>

definition vslice_add :: "vec \<Rightarrow> nat \<Rightarrow> nat \<Rightarrow> vec \<Rightarrow> error + vec" where
  "vslice_add v a b x =
     (if length x = length (vslice v a b)
      then Inr (take a v @ map2 (+) (vslice v a b) x @ drop (a + length x) v)
      else Inl ValueError)"

definition row_add :: "nat \<Rightarrow> nat \<Rightarrow> vec \<Rightarrow> vec \<Rightarrow> vec" where
  "row_add c0 c1 row x =
     take c0 row @ map2 (+) (vslice row c0 c1) x @ drop (c0 + length x) row"

definition mslice_add :: "mat \<Rightarrow> nat \<Rightarrow> nat \<Rightarrow> nat \<Rightarrow> nat \<Rightarrow> mat \<Rightarrow> error + mat" where
  "mslice_add M r0 r1 c0 c1 X =
     (if same_shape X (mslice M r0 r1 c0 c1)
      then Inr (Mat (ncols M)
             (take r0 (rows M)
              @ map2 (row_add c0 c1) (take (r1 - r0) (drop r0 (rows M))) (rows X)
              @ drop (r0 + nrows X) (rows M)))
      else Inl ValueError)"

text \<open>\<open>np.hstack\<close>, \<open>np.vstack\<close> and \<open>np.block\<close> of a two by two arrangement.\<close>

definition hstack :: "mat \<Rightarrow> mat \<Rightarrow> error + mat" where
  "hstack A B =
     (if nrows A = nrows B then Inr (Mat (ncols A + ncols B) (map2 (@) (rows A) (rows B)))
      else Inl ValueError)"

definition vstack :: "mat \<Rightarrow> mat \<Rightarrow> error + mat" where
  "vstack A B =
     (if ncols A = ncols B then Inr (Mat (ncols A) (rows A @ rows B)) else Inl ValueError)"

definition block4 :: "mat \<Rightarrow> mat \<Rightarrow> mat \<Rightarrow> mat \<Rightarrow> error + mat" where
  "block4 A B C D =
     (case hstack A B of
        Inl e \<Rightarrow> Inl e
      | Inr upper \<Rightarrow>
          (case hstack C D of
             Inl e \<Rightarrow> Inl e
           | Inr lower \<Rightarrow> vstack upper lower))"

text \<open>
  \<open>scipy.linalg.block_diag(A, B)\<close>. The empty one-dimensional array \<open>np.array([])\<close> counts
  there as a matrix of one row and no column.
\<close>

definition block_diag :: "mat \<Rightarrow> mat \<Rightarrow> mat" where
  "block_diag A B =
     Mat (ncols A + ncols B)
       (map (\<lambda>r. r @ replicate (ncols B) 0) (rows A)
        @ map (\<lambda>r. replicate (ncols A) 0 @ r) (rows B))"

subsection \<open>Matrix inverse\<close>

text \<open>
  \<open>np.linalg.inv\<close> raises \<open>LinAlgError\<close> for an array that is not square and for a singular
  one. In exact arithmetic a matrix is singular when its determinant is zero; the inverse
  is the transposed matrix of cofactors divided by the determinant.
\<close>

definition del_at :: "nat \<Rightarrow> 'a list \<Rightarrow> 'a list" where
  "del_at j xs = take j xs @ drop (Suc j) xs"

function det :: "real list list \<Rightarrow> real" where
  "det [] = 1"
| "det (r # rs) = (\<Sum>j\<leftarrow>[0..<length r]. (- 1) ^ j * r ! j * det (map (del_at j) rs))"
  by pat_completeness auto
termination
  by (relation "measure length") auto

definition cofactor :: "real list list \<Rightarrow> nat \<Rightarrow> nat \<Rightarrow> real" where
  "cofactor A i j = (- 1) ^ (i + j) * det (map (del_at j) (del_at i A))"

definition np_linalg_inv :: "mat \<Rightarrow> error + mat" where
  "np_linalg_inv M =
     (if nrows M \<noteq> ncols M then Inl LinAlgError
      else if det (rows M) = 0 then Inl LinAlgError
      else Inr (Mat (ncols M)
             (map (\<lambda>i. map (\<lambda>j. cofactor (rows M) j i / det (rows M)) [0..<ncols M])
                [0..<ncols M])))"

subsection \<open>Floats and arrays mixed\<close>

text \<open>
  A measurement, a prediction and a residual are Python floats or one-dimensional arrays.
  Subtraction broadcasts a float, or an array of length one, against an array.
\<close>

datatype nd = Scalar real | Vec vec

fun nd_sub :: "nd \<Rightarrow> nd \<Rightarrow> error + nd" where
  "nd_sub (Scalar a) (Scalar b) = Inr (Scalar (a - b))"
| "nd_sub (Scalar a) (Vec b) = Inr (Vec (map (\<lambda>y. a - y) b))"
| "nd_sub (Vec a) (Scalar b) = Inr (Vec (map (\<lambda>x. x - b) a))"
| "nd_sub (Vec a) (Vec b) =
     (if length a = length b then Inr (Vec (map2 (-) a b))
      else if length a = 1 then Inr (Vec (map (\<lambda>y. hd a - y) b))
      else if length b = 1 then Inr (Vec (map (\<lambda>x. x - hd b) a))
      else Inl ValueError)"

fun nd_add :: "nd \<Rightarrow> nd \<Rightarrow> error + nd" where
  "nd_add (Scalar a) (Scalar b) = Inr (Scalar (a + b))"
| "nd_add (Scalar a) (Vec b) = Inr (Vec (map (\<lambda>y. a + y) b))"
| "nd_add (Vec a) (Scalar b) = Inr (Vec (map (\<lambda>x. x + b) a))"
| "nd_add (Vec a) (Vec b) =
     (if length a = length b then Inr (Vec (map2 (+) a b))
      else if length a = 1 then Inr (Vec (map (\<lambda>y. hd a + y) b))
      else if length b = 1 then Inr (Vec (map (\<lambda>x. x + hd b) a))
      else Inl ValueError)"

text \<open>The element-wise product \<open>v * x\<close> of a one-dimensional array and a float or array.\<close>

fun vmul_nd :: "vec \<Rightarrow> nd \<Rightarrow> error + vec" where
  "vmul_nd v (Scalar s) = Inr (map (\<lambda>x. x * s) v)"
| "vmul_nd v (Vec w) =
     (if length v = length w then Inr (map2 (*) v w)
      else if length w = 1 then Inr (map (\<lambda>x. x * hd w) v)
      else if length v = 1 then Inr (map (\<lambda>y. hd v * y) w)
      else Inl ValueError)"

text \<open>\<open>np.eye(n)\<close>, \<open>M / c\<close> and \<open>np.outer(a, b)\<close> for one-dimensional \<open>a\<close> and \<open>b\<close>.\<close>

definition eye :: "nat \<Rightarrow> mat" where
  "eye n = Mat n (map (\<lambda>i. map (\<lambda>j. if i = j then 1 else 0) [0..<n]) [0..<n])"

definition mdiv :: "mat \<Rightarrow> real \<Rightarrow> mat" where
  "mdiv M c = Mat (ncols M) (map (map (\<lambda>x. x / c)) (rows M))"

definition outer :: "vec \<Rightarrow> vec \<Rightarrow> mat" where
  "outer a b = Mat (length b) (map (\<lambda>x. map (\<lambda>y. x * y) b) a)"

fun nd_norm :: "nd \<Rightarrow> real" where
  "nd_norm (Scalar a) = vnorm [a]"
| "nd_norm (Vec v) = vnorm v"

text \<open>
  \<open>np.linalg.norm\<close> applied to a Python tuple of two values first makes one array of the
  tuple: two floats give an array of length two, two arrays of the same length give a
  two-row matrix, whose norm is the Frobenius norm of all its entries. A float beside an
  array, or two arrays of different lengths, do not form an array (\<open>ValueError\<close>).
\<close>

fun norm_tuple :: "nd \<times> nd \<Rightarrow> error + real" where
  "norm_tuple (Scalar a, Scalar b) = Inr (vnorm [a, b])"
| "norm_tuple (Vec a, Vec b) = (if length a = length b then Inr (vnorm (a @ b)) else Inl ValueError)"
| "norm_tuple (Scalar a, Vec b) = Inl ValueError"
| "norm_tuple (Vec a, Scalar b) = Inl ValueError"

section \<open>Data model\<close>

text \<open>
  Objects live in a store and are named by references: a variable's \<open>adj_factors\<close> and the
  graph's \<open>factors\<close> hold references to the same factor objects, and \<open>list.remove\<close>
  compares these objects by identity. A reference always names an object, so the stores
  are total functions. Fields that no modelled method reads (\<open>timestamp\<close>, the
  \<open>prior_lambda\<close> fields, the counters \<open>n_var_nodes\<close>, \<open>n_factor_nodes\<close>, \<open>n_edges\<close>) are left
  out; the extra arguments \<open>*args\<close> of a factor are part of its \<open>meas_fn\<close> and \<open>jac_fn\<close>.
\<close>

type_synonym vref = nat
type_synonym fref = nat

record NdimGaussian =
  eta :: vec
  lam :: mat

text \<open>A Gaussian of dimension \<open>d\<close>: \<open>eta\<close> of length \<open>d\<close>, \<open>lam\<close> of shape \<open>d\<close> by \<open>d\<close>.\<close>

definition sized :: "nat \<Rightarrow> NdimGaussian \<Rightarrow> bool" where
  "sized d G = (length (eta G) = d \<and> nrows (lam G) = d \<and> ncols (lam G) = d \<and> wf_mat (lam G))"

text \<open>A Jacobian is a one-dimensional array (scalar measurement) or a matrix.\<close>

datatype jac = Jrow vec | Jmat mat

record VariableNode =
  variableID :: nat
  adj_factors :: "fref list"
  mu :: vec
  Sigma :: mat
  belief :: NdimGaussian
  prior :: NdimGaussian
  dofs :: nat

record Factor =
  factorID :: nat
  adj_var_nodes :: "vref list"
  adj_vIDs :: "nat list"
  adj_beliefs :: "NdimGaussian list"
  messages :: "NdimGaussian list"
  factor :: NdimGaussian
  linpoint :: vec
  measurement :: nd
  scale_factor :: nd
  gauss_noise_var :: real
  meas_fn :: "vec \<Rightarrow> nd"
  jac_fn :: "vec \<Rightarrow> jac"
  adaptive_gauss_noise_var :: real
  loss :: "string option"
  mahalanobis_threshold :: real
  robust_flag :: bool
  eta_damping :: real
  iters_since_relin :: int

record heap_map =
  kf_Lambda :: "mat list list"
  lm_Lambda :: "mat list list"
  iteration :: nat

record FactorGraph =
  var_nodes :: "vref list"
  factors :: "fref list"
  heatmap :: heap_map
  nonlinear_factors :: bool
  graph_eta_damping :: real
  beta :: real
  num_undamped_iters :: int
  min_linear_iters :: int

record heap =
  var_at :: "vref \<Rightarrow> VariableNode"
  factor_at :: "fref \<Rightarrow> Factor"

section \<open>FactorGraph.remove_outlier\<close>

text \<open>
  The first loop of \<open>remove_outlier\<close>: \<open>tmp\<close> is the copy of \<open>self.factors\<close> taken at
  entry, \<open>idx\<close> the position in \<open>factor_loss_list\<close>, \<open>fs\<close> the current \<open>self.factors\<close> and
  \<open>ids\<close> the list \<open>outlier_factor_ids\<close>.
\<close>

fun prune_losses ::
  "heap \<Rightarrow> fref list \<Rightarrow> nat \<Rightarrow> real list \<Rightarrow> fref list \<Rightarrow> nat list \<Rightarrow> error + (fref list \<times> nat list)"
where
  "prune_losses h tmp idx [] fs ids = Inr (fs, ids)"
| "prune_losses h tmp idx (factor_loss # rest) fs ids =
     (if factor_loss > 300 then
        (if idx < length tmp then
           (if tmp ! idx \<in> set fs then
              prune_losses h tmp (Suc idx) rest (remove1 (tmp ! idx) fs)
                (ids @ [factorID (factor_at h (tmp ! idx))])
            else Inl ValueError)
         else Inl IndexError)
      else prune_losses h tmp (Suc idx) rest fs ids)"

text \<open>
  The inner loop \<open>for adj_factors in var_node.adj_factors\<close>. Python's list iterator keeps
  a position \<open>i\<close> into the list it walks and stops when \<open>i\<close> reaches the list's current
  length; the body removes from that same list.
\<close>

function drop_outliers :: "heap \<Rightarrow> nat list \<Rightarrow> fref list \<Rightarrow> nat \<Rightarrow> fref list" where
  "drop_outliers h ids fs i =
     (if i < length fs then
        (if factorID (factor_at h (fs ! i)) \<in> set ids
         then drop_outliers h ids (remove1 (fs ! i) fs) (Suc i)
         else drop_outliers h ids fs (Suc i))
      else fs)"
  by pat_completeness auto
termination
  by (relation "measure (\<lambda>(h, ids, fs, i). length fs - i)") (auto simp: length_remove1)

declare drop_outliers.simps [simp del]

definition prune_var_node :: "nat list \<Rightarrow> vref \<Rightarrow> heap \<Rightarrow> heap" where
  "prune_var_node ids r h =
     h\<lparr>var_at := (var_at h)
        (r := (var_at h r)\<lparr>adj_factors := drop_outliers h ids (adj_factors (var_at h r)) 0\<rparr>)\<rparr>"

definition remove_outlier :: "heap \<Rightarrow> FactorGraph \<Rightarrow> real list \<Rightarrow> error + (heap \<times> FactorGraph)" where
  "remove_outlier h g factor_loss_list =
     (case prune_losses h (factors g) 0 factor_loss_list (factors g) [] of
        Inl e \<Rightarrow> Inl e
      | Inr (fs, ids) \<Rightarrow> Inr (fold (prune_var_node ids) (var_nodes g) h, g\<lparr>factors := fs\<rparr>))"

section \<open>Factor.compute_residual, Factor.energy and FactorGraph.energy\<close>

text \<open>
  The loop that several methods share: starting from the empty array, append
  \<open>np.linalg.inv(belief.lam) @ belief.eta\<close> for each belief in \<open>adj_beliefs\<close>, in order.
\<close>

fun belief_means :: "vec \<Rightarrow> NdimGaussian list \<Rightarrow> error + vec" where
  "belief_means adj_belief_means [] = Inr adj_belief_means"
| "belief_means adj_belief_means (b # bs) =
     (case np_linalg_inv (lam b) of
        Inl e \<Rightarrow> Inl e
      | Inr S \<Rightarrow>
          (case matvec S (eta b) of
             Inl e \<Rightarrow> Inl e
           | Inr m \<Rightarrow> belief_means (adj_belief_means @ m) bs))"

text \<open>\<open>compute_residual\<close> returns the tuple \<open>(d, self.scale_factor)\<close>.\<close>

definition compute_residual :: "Factor \<Rightarrow> error + (nd \<times> nd)" where
  "compute_residual f =
     (case belief_means [] (adj_beliefs f) of
        Inl e \<Rightarrow> Inl e
      | Inr adj_belief_means \<Rightarrow>
          (case nd_sub (meas_fn f adj_belief_means) (measurement f) of
             Inl e \<Rightarrow> Inl e
           | Inr d \<Rightarrow> Inr (d, scale_factor f)))"

text \<open>The term \<open>0.5 * np.linalg.norm(self.compute_residual()) ** 2 / self.adaptive_gauss_noise_var\<close>.\<close>

definition Factor_energy :: "Factor \<Rightarrow> error + real" where
  "Factor_energy f =
     (case compute_residual f of
        Inl e \<Rightarrow> Inl e
      | Inr t \<Rightarrow>
          (case norm_tuple t of
             Inl e \<Rightarrow> Inl e
           | Inr n \<Rightarrow> Inr (0.5 * n ^ 2 / adaptive_gauss_noise_var f)))"

fun energy_loop :: "heap \<Rightarrow> real \<Rightarrow> fref list \<Rightarrow> error + real" where
  "energy_loop h energy [] = Inr energy"
| "energy_loop h energy (r # rs) =
     (case Factor_energy (factor_at h r) of
        Inl e \<Rightarrow> Inl e
      | Inr x \<Rightarrow> energy_loop h (energy + x) rs)"

definition FactorGraph_energy :: "heap \<Rightarrow> FactorGraph \<Rightarrow> error + real" where
  "FactorGraph_energy h g = energy_loop h 0 (factors g)"

section \<open>Factor.robustify_loss\<close>

text \<open>
  The last two statements of \<open>robustify_loss\<close>: \<open>self.factor.eta\<close> and \<open>self.factor.lam\<close>
  are multiplied in place by \<open>old_adaptive_gauss_noise_var / self.adaptive_gauss_noise_var\<close>.
\<close>

definition rescale_factor :: "real \<Rightarrow> Factor \<Rightarrow> Factor" where
  "rescale_factor old_adaptive_gauss_noise_var f =
     f\<lparr>factor :=
        \<lparr>eta = vscale (old_adaptive_gauss_noise_var / adaptive_gauss_noise_var f) (eta (factor f)),
         lam = mscale (old_adaptive_gauss_noise_var / adaptive_gauss_noise_var f) (lam (factor f))\<rparr>\<rparr>"

definition robustify_loss :: "Factor \<Rightarrow> error + Factor" where
  "robustify_loss f =
     (let old_adaptive_gauss_noise_var = adaptive_gauss_noise_var f in
      case loss f of
        None \<Rightarrow>
          Inr (rescale_factor old_adaptive_gauss_noise_var
                 (f\<lparr>adaptive_gauss_noise_var := gauss_noise_var f\<rparr>))
      | Some l \<Rightarrow>
          (case belief_means [] (adj_beliefs f) of
             Inl e \<Rightarrow> Inl e
           | Inr adj_belief_means \<Rightarrow>
               (let pred_measurement = meas_fn f (linpoint f) in
                if l = ''huber'' then
                  (case nd_sub (measurement f) pred_measurement of
                     Inl e \<Rightarrow> Inl e
                   | Inr r \<Rightarrow>
                       (let mahalanobis_dist = nd_norm r / sqrt (gauss_noise_var f) in
                        if mahalanobis_dist > mahalanobis_threshold f then
                          Inr (rescale_factor old_adaptive_gauss_noise_var
                                 (f\<lparr>adaptive_gauss_noise_var :=
                                      gauss_noise_var f * mahalanobis_dist ^ 2 /
                                        (2 * (mahalanobis_threshold f * mahalanobis_dist
                                              - 0.5 * mahalanobis_threshold f ^ 2)),
                                    robust_flag := True\<rparr>))
                        else
                          Inr (rescale_factor old_adaptive_gauss_noise_var
                                 (f\<lparr>robust_flag := False,
                                    adaptive_gauss_noise_var := gauss_noise_var f\<rparr>))))
                else if l = ''constant'' then
                  (case nd_sub (measurement f) pred_measurement of
                     Inl e \<Rightarrow> Inl e
                   | Inr r \<Rightarrow>
                       (let mahalanobis_dist = nd_norm r / sqrt (gauss_noise_var f) in
                        if mahalanobis_dist > mahalanobis_threshold f then
                          Inr (rescale_factor old_adaptive_gauss_noise_var
                                 (f\<lparr>adaptive_gauss_noise_var := mahalanobis_dist ^ 2,
                                    robust_flag := True\<rparr>))
                        else
                          Inr (rescale_factor old_adaptive_gauss_noise_var
                                 (f\<lparr>robust_flag := False,
                                    adaptive_gauss_noise_var := gauss_noise_var f\<rparr>))))
                else Inr (rescale_factor old_adaptive_gauss_noise_var f))))"

section \<open>Factor.compute_factor\<close>

text \<open>
  The linearisation point is the argument \<open>linpoint\<close> when one is given, and the
  concatenation of the adjacent belief means otherwise. With a float measurement the
  Jacobian is a one-dimensional array, \<open>meas_model_lambda\<close> is the float
  \<open>1 / adaptive_gauss_noise_var\<close>, and
  \<open>eta_factor = meas_model_lambda * J.T * (J @ linpoint + measurement - pred_measurement)\<close>;
  with an array measurement the Jacobian is a matrix and \<open>meas_model_lambda\<close> is
  \<open>np.eye(len(measurement)) / adaptive_gauss_noise_var\<close>. A Jacobian of the other kind
  would make \<open>eta_factor\<close> or \<open>lambda_factor\<close> an array of another rank than the factor's
  \<open>eta\<close> and \<open>lam\<close>; the model returns \<open>ValueError\<close> there. The result is the factor
  object after the call and the returned pair.
\<close>

definition compute_factor ::
  "Factor \<Rightarrow> vec option \<Rightarrow> bool \<Rightarrow> error + (Factor \<times> (vec \<times> mat))"
where
  "compute_factor f linpoint_arg update_self =
     (case (case linpoint_arg of
              None \<Rightarrow> belief_means [] (adj_beliefs f)
            | Some x \<Rightarrow> Inr x) of
        Inl e \<Rightarrow> Inl e
      | Inr lp \<Rightarrow>
          (let f1 = f\<lparr>linpoint := lp\<rparr>;
               J = jac_fn f1 lp;
               pred_measurement = meas_fn f1 lp;
               store = (\<lambda>eta_factor lambda_factor.
                  Inr (if update_self
                       then f1\<lparr>factor := (factor f1)\<lparr>eta := eta_factor, lam := lambda_factor\<rparr>\<rparr>
                       else f1,
                       (eta_factor, lambda_factor)))
           in case (measurement f1, J) of
                (Scalar z, Jrow Jv) \<Rightarrow>
                  (let meas_model_lambda = 1 / adaptive_gauss_noise_var f1;
                       lambda_factor = mscale meas_model_lambda (outer Jv Jv)
                   in if length Jv = length lp then
                        (case nd_sub (Scalar (dot Jv lp + z)) pred_measurement of
                           Inl e \<Rightarrow> Inl e
                         | Inr r \<Rightarrow>
                             (case vmul_nd (vscale meas_model_lambda Jv) r of
                                Inl e \<Rightarrow> Inl e
                              | Inr eta_factor \<Rightarrow> store eta_factor lambda_factor))
                      else Inl ValueError)
              | (Vec z, Jmat Jm) \<Rightarrow>
                  (let meas_model_lambda = mdiv (eye (length z)) (adaptive_gauss_noise_var f1)
                   in case matmul (mtranspose Jm) meas_model_lambda of
                        Inl e \<Rightarrow> Inl e
                      | Inr JtW \<Rightarrow>
                          (case matmul JtW Jm of
                             Inl e \<Rightarrow> Inl e
                           | Inr lambda_factor \<Rightarrow>
                               (case matvec Jm lp of
                                  Inl e \<Rightarrow> Inl e
                                | Inr Jx \<Rightarrow>
                                    (case nd_add (Vec Jx) (Vec z) of
                                       Inl e \<Rightarrow> Inl e
                                     | Inr a \<Rightarrow>
                                         (case nd_sub a pred_measurement of
                                            Inr (Vec r) \<Rightarrow>
                                              (case matvec JtW r of
                                                 Inl e \<Rightarrow> Inl e
                                               | Inr eta_factor \<Rightarrow> store eta_factor lambda_factor)
                                          | Inr (Scalar r) \<Rightarrow> Inl ValueError
                                          | Inl e \<Rightarrow> Inl e)))))
              | (Scalar z, Jmat Jm) \<Rightarrow> Inl ValueError
              | (Vec z, Jrow Jv) \<Rightarrow> Inl ValueError))"

section \<open>FactorGraph.relinearise_factors\<close>

text \<open>The body of the loop, for one factor.\<close>

definition relinearise_factor :: "FactorGraph \<Rightarrow> Factor \<Rightarrow> error + Factor" where
  "relinearise_factor g f =
     (case belief_means [] (adj_beliefs f) of
        Inl e \<Rightarrow> Inl e
      | Inr adj_belief_means \<Rightarrow>
          (case nd_sub (Vec (linpoint f)) (Vec adj_belief_means) of
             Inl e \<Rightarrow> Inl e
           | Inr drift \<Rightarrow>
               if nd_norm drift > beta g \<and> iters_since_relin f \<ge> min_linear_iters g then
                 (case compute_factor f (Some adj_belief_means) True of
                    Inl e \<Rightarrow> Inl e
                  | Inr (f1, returned) \<Rightarrow> Inr (f1\<lparr>iters_since_relin := 0, eta_damping := 0\<rparr>))
               else Inr (f\<lparr>iters_since_relin := iters_since_relin f + 1\<rparr>)))"

fun relinearise_loop :: "FactorGraph \<Rightarrow> fref list \<Rightarrow> heap \<Rightarrow> error + heap" where
  "relinearise_loop g [] h = Inr h"
| "relinearise_loop g (r # rs) h =
     (case relinearise_factor g (factor_at h r) of
        Inl e \<Rightarrow> Inl e
      | Inr f' \<Rightarrow> relinearise_loop g rs (h\<lparr>factor_at := (factor_at h) (r := f')\<rparr>))"

definition relinearise_factors :: "FactorGraph \<Rightarrow> heap \<Rightarrow> error + heap" where
  "relinearise_factors g h =
     (if nonlinear_factors g then relinearise_loop g (factors g) h else Inr h)"

subsection \<open>The relinearisation condition, and a factor over several iterations\<close>

text \<open>
  The condition of the specification: the drift \<open>|linpoint - x_now|\<close> exceeds \<open>beta\<close> and
  \<open>iters_since_relin\<close> has reached \<open>min_linear_iters\<close>, where \<open>x_now\<close> is the concatenation
  of the adjacent belief means.
\<close>

definition relin_due :: "FactorGraph \<Rightarrow> Factor \<Rightarrow> bool" where
  "relin_due g f =
     (case belief_means [] (adj_beliefs f) of
        Inl e \<Rightarrow> False
      | Inr x_now \<Rightarrow>
          (case nd_sub (Vec (linpoint f)) (Vec x_now) of
             Inl e \<Rightarrow> False
           | Inr drift \<Rightarrow> nd_norm drift > beta g \<and> iters_since_relin f \<ge> min_linear_iters g))"

text \<open>
  One factor over successive calls of \<open>relinearise_factors\<close>. Between two calls the rest
  of the iteration (and anything else the caller does) changes the factor: the list gives
  that change before each call. The result tells, call by call, whether the condition
  held.
\<close>

fun relin_trace :: "FactorGraph \<Rightarrow> (Factor \<Rightarrow> Factor) list \<Rightarrow> Factor \<Rightarrow> error + bool list" where
  "relin_trace g [] f = Inr []"
| "relin_trace g (change # changes) f =
     (case relinearise_factor g (change f) of
        Inl e \<Rightarrow> Inl e
      | Inr f' \<Rightarrow>
          (case relin_trace g changes f' of
             Inl e \<Rightarrow> Inl e
           | Inr bs \<Rightarrow> Inr (relin_due g (change f) # bs)))"

section \<open>Factor.compute_messages\<close>

text \<open>
  The inner loop over \<open>var\<close>: for every neighbour but \<open>v\<close>, the belief minus the message
  last sent to it is added to its diagonal block of the copies \<open>eta_factor\<close> and
  \<open>lam_factor\<close>; \<open>mess_start_dim\<close> is advanced for every neighbour.
\<close>

definition cavity_step ::
  "heap \<Rightarrow> Factor \<Rightarrow> nat \<Rightarrow> nat \<Rightarrow> nat \<Rightarrow> vec \<times> mat \<Rightarrow> error + (nat \<times> vec \<times> mat)"
where
  "cavity_step h f v var mess_start_dim el =
     (case el of (eta_factor, lam_factor) \<Rightarrow>
      if var < length (adj_var_nodes f) then
        (let var_dofs = dofs (var_at h (adj_var_nodes f ! var)) in
         if var \<noteq> v then
           (if var < length (adj_beliefs f) \<and> var < length (messages f) then
              (case vsub (eta (adj_beliefs f ! var)) (eta (messages f ! var)) of
                 Inl e \<Rightarrow> Inl e
               | Inr d_eta \<Rightarrow>
                   (case vslice_add eta_factor mess_start_dim (mess_start_dim + var_dofs) d_eta of
                      Inl e \<Rightarrow> Inl e
                    | Inr eta1 \<Rightarrow>
                        (case msub (lam (adj_beliefs f ! var)) (lam (messages f ! var)) of
                           Inl e \<Rightarrow> Inl e
                         | Inr d_lam \<Rightarrow>
                             (case mslice_add lam_factor
                                     mess_start_dim (mess_start_dim + var_dofs)
                                     mess_start_dim (mess_start_dim + var_dofs) d_lam of
                                Inl e \<Rightarrow> Inl e
                              | Inr lam1 \<Rightarrow> Inr (mess_start_dim + var_dofs, eta1, lam1)))))
            else Inl IndexError)
         else Inr (mess_start_dim + var_dofs, eta_factor, lam_factor))
      else Inl IndexError)"

fun add_cavity ::
  "heap \<Rightarrow> Factor \<Rightarrow> nat \<Rightarrow> nat list \<Rightarrow> nat \<Rightarrow> vec \<times> mat \<Rightarrow> error + (vec \<times> mat)"
where
  "add_cavity h f v [] mess_start_dim el = Inr el"
| "add_cavity h f v (var # vars) mess_start_dim el =
     (case cavity_step h f v var mess_start_dim el of
        Inl e \<Rightarrow> Inl e
      | Inr (mess_start_dim1, el1) \<Rightarrow> add_cavity h f v vars mess_start_dim1 el1)"

text \<open>
  ``Divide up parameters of distribution'': the block of the neighbour (\<open>o\<close>) and the rest
  (\<open>no\<close>) of \<open>eta_factor\<close> and \<open>lam_factor\<close>, for the block from \<open>start_dim\<close> to \<open>stop\<close>.
\<close>

definition lono_of :: "mat \<Rightarrow> nat \<Rightarrow> nat \<Rightarrow> error + mat" where
  "lono_of lam_factor start_dim stop =
     hstack (mslice lam_factor start_dim stop 0 start_dim)
            (mslice lam_factor start_dim stop stop (ncols lam_factor))"

definition lnoo_of :: "mat \<Rightarrow> nat \<Rightarrow> nat \<Rightarrow> error + mat" where
  "lnoo_of lam_factor start_dim stop =
     vstack (mslice lam_factor 0 start_dim start_dim stop)
            (mslice lam_factor stop (nrows lam_factor) start_dim stop)"

definition lnono_of :: "mat \<Rightarrow> nat \<Rightarrow> nat \<Rightarrow> error + mat" where
  "lnono_of lam_factor start_dim stop =
     block4 (mslice lam_factor 0 start_dim 0 start_dim)
            (mslice lam_factor 0 start_dim stop (ncols lam_factor))
            (mslice lam_factor stop (nrows lam_factor) 0 start_dim)
            (mslice lam_factor stop (nrows lam_factor) stop (ncols lam_factor))"

text \<open>
  ``Compute outgoing messages'': \<open>loo - lono @ inv(lnono) @ lnoo\<close> and
  \<open>eo - lono @ inv(lnono) @ eno\<close>; the products associate to the left.
\<close>

definition schur_lam :: "mat \<Rightarrow> mat \<Rightarrow> mat \<Rightarrow> mat \<Rightarrow> error + mat" where
  "schur_lam loo lono lnoo lnono =
     (case np_linalg_inv lnono of
        Inl e \<Rightarrow> Inl e
      | Inr inv_lnono \<Rightarrow>
          (case matmul lono inv_lnono of
             Inl e \<Rightarrow> Inl e
           | Inr lono_inv \<Rightarrow>
               (case matmul lono_inv lnoo of
                  Inl e \<Rightarrow> Inl e
                | Inr correction \<Rightarrow> msub loo correction)))"

definition schur_eta :: "vec \<Rightarrow> vec \<Rightarrow> mat \<Rightarrow> mat \<Rightarrow> error + vec" where
  "schur_eta eo eno lono lnono =
     (case np_linalg_inv lnono of
        Inl e \<Rightarrow> Inl e
      | Inr inv_lnono \<Rightarrow>
          (case matmul lono inv_lnono of
             Inl e \<Rightarrow> Inl e
           | Inr lono_inv \<Rightarrow>
               (case matvec lono_inv eno of
                  Inl e \<Rightarrow> Inl e
                | Inr correction \<Rightarrow> vsub eo correction)))"

definition marginal :: "vec \<Rightarrow> mat \<Rightarrow> nat \<Rightarrow> nat \<Rightarrow> error + (vec \<times> mat)" where
  "marginal eta_factor lam_factor start_dim stop =
     (let eo = vslice eta_factor start_dim stop;
          eno = take start_dim eta_factor @ drop stop eta_factor;
          loo = mslice lam_factor start_dim stop start_dim stop
      in (case lono_of lam_factor start_dim stop of
            Inl e \<Rightarrow> Inl e
          | Inr lono \<Rightarrow>
              (case lnoo_of lam_factor start_dim stop of
                 Inl e \<Rightarrow> Inl e
               | Inr lnoo \<Rightarrow>
                   (case lnono_of lam_factor start_dim stop of
                      Inl e \<Rightarrow> Inl e
                    | Inr lnono \<Rightarrow>
                        (case schur_lam loo lono lnoo lnono of
                           Inl e \<Rightarrow> Inl e
                         | Inr message_lam \<Rightarrow>
                             (case schur_eta eo eno lono lnono of
                                Inl e \<Rightarrow> Inl e
                              | Inr new_message_eta \<Rightarrow>
                                  Inr (new_message_eta, message_lam)))))))"

text \<open>
  The body of the outer loop for the neighbour \<open>v\<close>, whose block starts at \<open>start_dim\<close>:
  the pair appended to \<open>messages_eta\<close> and \<open>messages_lam\<close>. It reads the factor; it writes
  nothing of it.
\<close>

definition outgoing :: "heap \<Rightarrow> Factor \<Rightarrow> real \<Rightarrow> nat \<Rightarrow> nat \<Rightarrow> error + (vec \<times> mat)" where
  "outgoing h f damping v start_dim =
     (case add_cavity h f v [0..<length (adj_vIDs f)] 0 (eta (factor f), lam (factor f)) of
        Inl e \<Rightarrow> Inl e
      | Inr (eta_factor, lam_factor) \<Rightarrow>
          (if v < length (adj_var_nodes f) \<and> v < length (messages f) then
             (let mess_dofs = dofs (var_at h (adj_var_nodes f ! v)) in
              case marginal eta_factor lam_factor start_dim (start_dim + mess_dofs) of
                Inl e \<Rightarrow> Inl e
              | Inr (new_message_eta, message_lam) \<Rightarrow>
                  (case vadd (vscale (1 - damping) new_message_eta)
                             (vscale damping (eta (messages f ! v))) of
                     Inl e \<Rightarrow> Inl e
                   | Inr message_eta \<Rightarrow> Inr (message_eta, message_lam)))
           else Inl IndexError))"

text \<open>
  The outer loop: \<open>start_dim\<close> is advanced by the \<open>dofs\<close> of each neighbour, and the two
  local lists \<open>messages_eta\<close> and \<open>messages_lam\<close> (the pair \<open>computed\<close>) grow by one message
  each time. (The loop also appends two numbers to the
  file \<open>message.txt\<close>; files are not part of the model.)
\<close>

fun compute_loop ::
  "heap \<Rightarrow> Factor \<Rightarrow> real \<Rightarrow> nat list \<Rightarrow> nat \<Rightarrow> vec list \<times> mat list \<Rightarrow> error + (vec list \<times> mat list)"
where
  "compute_loop h f damping [] start_dim computed = Inr computed"
| "compute_loop h f damping (v # vs) start_dim computed =
     (case outgoing h f damping v start_dim of
        Inl e \<Rightarrow> Inl e
      | Inr (message_eta, message_lam) \<Rightarrow>
          compute_loop h f damping vs (start_dim + dofs (var_at h (adj_var_nodes f ! v)))
            (fst computed @ [message_eta], snd computed @ [message_lam]))"

text \<open>\<open>heap_map.push_kf\<close> and \<open>push_lm\<close> append to the last list, which must exist.\<close>

definition push_kf :: "mat \<Rightarrow> heap_map \<Rightarrow> error + heap_map" where
  "push_kf L hm =
     (if kf_Lambda hm = [] then Inl IndexError
      else Inr (hm\<lparr>kf_Lambda := butlast (kf_Lambda hm) @ [last (kf_Lambda hm) @ [L]]\<rparr>))"

definition push_lm :: "mat \<Rightarrow> heap_map \<Rightarrow> error + heap_map" where
  "push_lm L hm =
     (if lm_Lambda hm = [] then Inl IndexError
      else Inr (hm\<lparr>lm_Lambda := butlast (lm_Lambda hm) @ [last (lm_Lambda hm) @ [L]]\<rparr>))"

text \<open>
  The second loop writes the computed messages into \<open>self.messages\<close>, in the order in which
  it visits the positions (the code visits \<open>0, 1, ...\<close>).
\<close>

definition commit_message ::
  "vec list \<Rightarrow> mat list \<Rightarrow> nat \<Rightarrow> Factor \<times> heap_map \<Rightarrow> error + (Factor \<times> heap_map)"
where
  "commit_message messages_eta messages_lam v fh =
     (case fh of (f, hm) \<Rightarrow>
      if v < length (messages f) then
        (let f1 = f\<lparr>messages := (messages f)
                     [v := (messages f ! v)\<lparr>lam := messages_lam ! v, eta := messages_eta ! v\<rparr>]\<rparr>
         in case (if v = 0 then push_kf (messages_lam ! v) hm else Inr hm) of
              Inl e \<Rightarrow> Inl e
            | Inr hm1 \<Rightarrow>
                (case (if v = 1 then push_lm (messages_lam ! v) hm1 else Inr hm1) of
                   Inl e \<Rightarrow> Inl e
                 | Inr hm2 \<Rightarrow> Inr (f1, hm2)))
      else Inl IndexError)"

fun commit_loop ::
  "vec list \<Rightarrow> mat list \<Rightarrow> nat list \<Rightarrow> Factor \<times> heap_map \<Rightarrow> error + (Factor \<times> heap_map)"
where
  "commit_loop messages_eta messages_lam [] fh = Inr fh"
| "commit_loop messages_eta messages_lam (v # vs) fh =
     (case commit_message messages_eta messages_lam v fh of
        Inl e \<Rightarrow> Inl e
      | Inr fh1 \<Rightarrow> commit_loop messages_eta messages_lam vs fh1)"

definition compute_messages ::
  "heap \<Rightarrow> Factor \<Rightarrow> real \<Rightarrow> heap_map \<Rightarrow> error + (Factor \<times> heap_map)"
where
  "compute_messages h f damping hm =
     (case compute_loop h f damping [0..<length (adj_vIDs f)] 0 ([], []) of
        Inl e \<Rightarrow> Inl e
      | Inr (messages_eta, messages_lam) \<Rightarrow>
          commit_loop messages_eta messages_lam [0..<length (adj_vIDs f)] (f, hm))"

text \<open>Where the block of the neighbour at position \<open>v\<close> starts inside the factor.\<close>

definition block_start :: "heap \<Rightarrow> Factor \<Rightarrow> nat \<Rightarrow> nat" where
  "block_start h f v = (\<Sum>u\<leftarrow>[0..<v]. dofs (var_at h (adj_var_nodes f ! u)))"

text \<open>
  The factor whose messages at the positions in \<open>S\<close> are the computed ones, the others
  being as before.
\<close>

definition committed :: "vec list \<Rightarrow> mat list \<Rightarrow> nat set \<Rightarrow> Factor \<Rightarrow> Factor" where
  "committed es ls S f =
     f\<lparr>messages := map (\<lambda>i. if i \<in> S then \<lparr>eta = es ! i, lam = ls ! i\<rparr> else messages f ! i)
                     [0..<length (messages f)]\<rparr>"

section \<open>FactorGraph.joint_distribution_inf\<close>

text \<open>
  The first loop, over \<open>self.var_nodes\<close> in list order. Its state is \<open>eta\<close>, \<open>lam\<close>, the
  array \<open>var_ix\<close> and \<open>tot_n_vars\<close>. (When the variable has id 0, \<open>lam\<close> becomes the prior's
  own array; if no further variable follows, the additions of the second loop also land in
  that prior. The model gives the returned pair only.)
\<close>

definition prior_step ::
  "heap \<Rightarrow> vref \<Rightarrow> vec \<times> mat \<times> nat list \<times> nat \<Rightarrow> error + (vec \<times> mat \<times> nat list \<times> nat)"
where
  "prior_step h r st =
     (case st of (eta_j, lam_j, var_ix, tot_n_vars) \<Rightarrow>
        (let var_node = var_at h r in
         if variableID var_node < length var_ix then
           Inr (eta_j @ eta (prior var_node),
                (if variableID var_node = 0 then lam (prior var_node)
                 else block_diag lam_j (lam (prior var_node))),
                var_ix[variableID var_node := tot_n_vars],
                tot_n_vars + dofs var_node)
         else Inl IndexError))"

fun joint_priors ::
  "heap \<Rightarrow> vref list \<Rightarrow> vec \<times> mat \<times> nat list \<times> nat \<Rightarrow> error + (vec \<times> mat \<times> nat list \<times> nat)"
where
  "joint_priors h [] st = Inr st"
| "joint_priors h (r # rs) st =
     (case prior_step h r st of
        Inl e \<Rightarrow> Inl e
      | Inr st1 \<Rightarrow> joint_priors h rs st1)"

text \<open>
  The innermost loop over \<open>other_adj_var_node\<close>, for the adjacent variable \<open>a\<close> whose block
  in the factor starts at \<open>factor_ix\<close>: both off-diagonal blocks are added when the other
  variable has the greater id.
\<close>

definition off_diagonal_step ::
  "heap \<Rightarrow> Factor \<Rightarrow> nat list \<Rightarrow> vref \<Rightarrow> nat \<Rightarrow> vref \<Rightarrow> nat \<Rightarrow> mat \<Rightarrow> error + mat"
where
  "off_diagonal_step h f var_ix a factor_ix b other_factor_ix lam_j =
     (let adj_var_node = var_at h a; other_adj_var_node = var_at h b in
      if variableID other_adj_var_node > variableID adj_var_node then
        (if variableID adj_var_node < length var_ix
            \<and> variableID other_adj_var_node < length var_ix then
           (let i = var_ix ! variableID adj_var_node;
                j = var_ix ! variableID other_adj_var_node;
                d = dofs adj_var_node;
                d' = dofs other_adj_var_node
            in case mslice_add lam_j i (i + d) j (j + d')
                      (mslice (lam (factor f)) factor_ix (factor_ix + d)
                         other_factor_ix (other_factor_ix + d')) of
                 Inl e \<Rightarrow> Inl e
               | Inr lam1 \<Rightarrow>
                   mslice_add lam1 j (j + d') i (i + d)
                     (mslice (lam (factor f)) other_factor_ix (other_factor_ix + d')
                        factor_ix (factor_ix + d)))
         else Inl IndexError)
      else Inr lam_j)"

fun off_diagonal_loop ::
  "heap \<Rightarrow> Factor \<Rightarrow> nat list \<Rightarrow> vref \<Rightarrow> nat \<Rightarrow> vref list \<Rightarrow> nat \<Rightarrow> mat \<Rightarrow> error + mat"
where
  "off_diagonal_loop h f var_ix a factor_ix [] other_factor_ix lam_j = Inr lam_j"
| "off_diagonal_loop h f var_ix a factor_ix (b # bs) other_factor_ix lam_j =
     (case off_diagonal_step h f var_ix a factor_ix b other_factor_ix lam_j of
        Inl e \<Rightarrow> Inl e
      | Inr lam1 \<Rightarrow>
          off_diagonal_loop h f var_ix a factor_ix bs (other_factor_ix + dofs (var_at h b)) lam1)"

text \<open>The loop over \<open>adj_var_node\<close>: the diagonal contribution, then the inner loop.\<close>

definition adj_step ::
  "heap \<Rightarrow> Factor \<Rightarrow> nat list \<Rightarrow> vref \<Rightarrow> nat \<Rightarrow> vec \<times> mat \<Rightarrow> error + (vec \<times> mat)"
where
  "adj_step h f var_ix a factor_ix el =
     (case el of (eta_j, lam_j) \<Rightarrow>
        (let adj_var_node = var_at h a; vID = variableID adj_var_node; d = dofs adj_var_node in
         if vID < length var_ix then
           (let i = var_ix ! vID in
            case vslice_add eta_j i (i + d) (vslice (eta (factor f)) factor_ix (factor_ix + d)) of
              Inl e \<Rightarrow> Inl e
            | Inr eta1 \<Rightarrow>
                (case mslice_add lam_j i (i + d) i (i + d)
                        (mslice (lam (factor f)) factor_ix (factor_ix + d)
                           factor_ix (factor_ix + d)) of
                   Inl e \<Rightarrow> Inl e
                 | Inr lam1 \<Rightarrow>
                     (case off_diagonal_loop h f var_ix a factor_ix (adj_var_nodes f) 0 lam1 of
                        Inl e \<Rightarrow> Inl e
                      | Inr lam2 \<Rightarrow> Inr (eta1, lam2))))
         else Inl IndexError))"

fun adj_loop ::
  "heap \<Rightarrow> Factor \<Rightarrow> nat list \<Rightarrow> vref list \<Rightarrow> nat \<Rightarrow> vec \<times> mat \<Rightarrow> error + (vec \<times> mat)"
where
  "adj_loop h f var_ix [] factor_ix el = Inr el"
| "adj_loop h f var_ix (a # as) factor_ix el =
     (case adj_step h f var_ix a factor_ix el of
        Inl e \<Rightarrow> Inl e
      | Inr el1 \<Rightarrow> adj_loop h f var_ix as (factor_ix + dofs (var_at h a)) el1)"

fun factor_loop :: "heap \<Rightarrow> nat list \<Rightarrow> fref list \<Rightarrow> vec \<times> mat \<Rightarrow> error + (vec \<times> mat)" where
  "factor_loop h var_ix [] el = Inr el"
| "factor_loop h var_ix (F # Fs) el =
     (case adj_loop h (factor_at h F) var_ix (adj_var_nodes (factor_at h F)) 0 el of
        Inl e \<Rightarrow> Inl e
      | Inr el1 \<Rightarrow> factor_loop h var_ix Fs el1)"

definition joint_distribution_inf :: "heap \<Rightarrow> FactorGraph \<Rightarrow> error + (vec \<times> mat)" where
  "joint_distribution_inf h g =
     (case joint_priors h (var_nodes g)
             ([], Mat 0 [[]], replicate (length (var_nodes g)) 0, 0) of
        Inl e \<Rightarrow> Inl e
      | Inr (eta_j, lam_j, var_ix, tot_n_vars) \<Rightarrow>
          factor_loop h var_ix (factors g) (eta_j, lam_j))"

subsection \<open>The joint distribution of the specification\<close>

text \<open>
  What the specification asks of the result, written without slices: the variables are
  taken by ascending id; \<open>eta\<close> is the concatenation of their priors' \<open>eta\<close> and \<open>lam\<close> the
  block diagonal of their priors' \<open>lam\<close>; to these are added, for every factor, its blocks
  placed at the offsets of its adjacent variables: for each adjacent variable its block of
  \<open>eta\<close> and its diagonal block of \<open>lam\<close>, and for each pair of adjacent variables both
  off-diagonal blocks.
\<close>

definition vplus :: "vec \<Rightarrow> vec \<Rightarrow> vec" where
  "vplus a b = map2 (+) a b"

definition mplus :: "mat \<Rightarrow> mat \<Rightarrow> mat" where
  "mplus A B = Mat (ncols A) (map2 vplus (rows A) (rows B))"

text \<open>The vector of length \<open>n\<close> that is \<open>x\<close> from position \<open>a\<close> on and zero elsewhere.\<close>

definition vplace :: "nat \<Rightarrow> nat \<Rightarrow> vec \<Rightarrow> vec" where
  "vplace n a x = replicate a 0 @ x @ replicate (n - a - length x) 0"

text \<open>The square matrix of size \<open>n\<close> that is \<open>X\<close> from row \<open>r0\<close> and column \<open>c0\<close> on and zero elsewhere.\<close>

definition mplace :: "nat \<Rightarrow> nat \<Rightarrow> nat \<Rightarrow> mat \<Rightarrow> mat" where
  "mplace n r0 c0 X =
     Mat n (replicate r0 (replicate n 0)
            @ map (vplace n c0) (rows X)
            @ replicate (n - r0 - nrows X) (replicate n 0))"

definition by_id :: "heap \<Rightarrow> FactorGraph \<Rightarrow> vref list" where
  "by_id h g = sort_key (\<lambda>r. variableID (var_at h r)) (var_nodes g)"

definition joint_dim :: "heap \<Rightarrow> FactorGraph \<Rightarrow> nat" where
  "joint_dim h g = (\<Sum>r\<leftarrow>var_nodes g. dofs (var_at h r))"

text \<open>Where the block of the variable with id \<open>i\<close> starts (ids are dense from 0).\<close>

definition id_offset :: "heap \<Rightarrow> FactorGraph \<Rightarrow> nat \<Rightarrow> nat" where
  "id_offset h g i = (\<Sum>r\<leftarrow>take i (by_id h g). dofs (var_at h r))"

definition prior_eta :: "heap \<Rightarrow> FactorGraph \<Rightarrow> vec" where
  "prior_eta h g = concat (map (\<lambda>r. eta (prior (var_at h r))) (by_id h g))"

text \<open>
  The block diagonal of a list of matrices, as \<open>scipy.linalg.block_diag(*arrs)\<close> gives it; for
  no matrix at all that is the empty array of shape \<open>(1, 0)\<close>.
\<close>

definition block_diag_list :: "mat list \<Rightarrow> mat" where
  "block_diag_list Ms = (case Ms of [] \<Rightarrow> Mat 0 [[]] | M # Ms' \<Rightarrow> foldl block_diag M Ms')"

definition prior_lam :: "heap \<Rightarrow> FactorGraph \<Rightarrow> mat" where
  "prior_lam h g = block_diag_list (map (\<lambda>r. lam (prior (var_at h r))) (by_id h g))"

text \<open>The adjacent variables of a factor, each with the start of its block in the factor.\<close>

fun blocks_from :: "heap \<Rightarrow> nat \<Rightarrow> vref list \<Rightarrow> (vref \<times> nat) list" where
  "blocks_from h s [] = []"
| "blocks_from h s (a # as) = (a, s) # blocks_from h (s + dofs (var_at h a)) as"

definition eta_block :: "heap \<Rightarrow> FactorGraph \<Rightarrow> Factor \<Rightarrow> vref \<times> nat \<Rightarrow> vec" where
  "eta_block h g f p =
     vplace (joint_dim h g) (id_offset h g (variableID (var_at h (fst p))))
       (vslice (eta (factor f)) (snd p) (snd p + dofs (var_at h (fst p))))"

definition lam_block :: "heap \<Rightarrow> FactorGraph \<Rightarrow> Factor \<Rightarrow> vref \<times> nat \<Rightarrow> vref \<times> nat \<Rightarrow> mat" where
  "lam_block h g f p q =
     mplace (joint_dim h g)
       (id_offset h g (variableID (var_at h (fst p))))
       (id_offset h g (variableID (var_at h (fst q))))
       (mslice (lam (factor f)) (snd p) (snd p + dofs (var_at h (fst p)))
          (snd q) (snd q + dofs (var_at h (fst q))))"

definition off_diagonal_blocks ::
  "heap \<Rightarrow> FactorGraph \<Rightarrow> Factor \<Rightarrow> vref \<times> nat \<Rightarrow> (vref \<times> nat) list \<Rightarrow> mat list"
where
  "off_diagonal_blocks h g f p qs =
     concat (map (\<lambda>q. if variableID (var_at h (fst q)) > variableID (var_at h (fst p))
                       then [lam_block h g f p q, lam_block h g f q p] else []) qs)"

definition factor_lam_blocks :: "heap \<Rightarrow> FactorGraph \<Rightarrow> Factor \<Rightarrow> (vref \<times> nat) list \<Rightarrow> mat list" where
  "factor_lam_blocks h g f ps =
     concat (map (\<lambda>p. lam_block h g f p p
                        # off_diagonal_blocks h g f p (blocks_from h 0 (adj_var_nodes f))) ps)"

definition joint_eta :: "heap \<Rightarrow> FactorGraph \<Rightarrow> vec" where
  "joint_eta h g =
     foldl vplus (prior_eta h g)
       (concat (map (\<lambda>F. map (eta_block h g (factor_at h F))
                            (blocks_from h 0 (adj_var_nodes (factor_at h F))))
                  (factors g)))"

definition joint_lam :: "heap \<Rightarrow> FactorGraph \<Rightarrow> mat" where
  "joint_lam h g =
     foldl mplus (prior_lam h g)
       (concat (map (\<lambda>F. factor_lam_blocks h g (factor_at h F)
                            (blocks_from h 0 (adj_var_nodes (factor_at h F))))
                  (factors g)))"

text \<open>
  The data model's conditions on a graph: the priors have size \<open>dofs\<close>; every factor is
  adjacent to variables of the graph only, and its \<open>factor\<close> has the size of their \<open>dofs\<close>
  together.
\<close>

definition factor_sized :: "heap \<Rightarrow> FactorGraph \<Rightarrow> fref \<Rightarrow> bool" where
  "factor_sized h g F =
     (list_all (\<lambda>a. a \<in> set (var_nodes g)) (adj_var_nodes (factor_at h F))
      \<and> sized (\<Sum>a\<leftarrow>adj_var_nodes (factor_at h F). dofs (var_at h a)) (factor (factor_at h F)))"

definition graph_sized :: "heap \<Rightarrow> FactorGraph \<Rightarrow> bool" where
  "graph_sized h g =
     (list_all (\<lambda>r. sized (dofs (var_at h r)) (prior (var_at h r))) (var_nodes g)
      \<and> list_all (factor_sized h g) (factors g))"

text \<open>The variable list is in ascending id order: the variable at position \<open>i\<close> has id \<open>i\<close>.\<close>

definition id_ordered :: "heap \<Rightarrow> FactorGraph \<Rightarrow> bool" where
  "id_ordered h g =
     (map (\<lambda>r. variableID (var_at h r)) (var_nodes g) = [0..<length (var_nodes g)])"

subsection \<open>Blocks that fit\<close>

text \<open>
  \<open>fits n L\<close>: \<open>L\<close> is a well-formed square matrix of size \<open>n\<close>. \<open>block_ok h g f p\<close>: the
  block \<open>p\<close> of the factor \<open>f\<close> (an adjacent variable with the start of its block) lies inside
  the factor, its variable's id indexes \<open>var_ix\<close>, and the variable's block lies inside the
  joint. \<open>factor_ok\<close> asks this of every block of a factor of the graph.
\<close>

definition fits :: "nat \<Rightarrow> mat \<Rightarrow> bool" where
  "fits n L = (wf_mat L \<and> nrows L = n \<and> ncols L = n)"

definition block_ok :: "heap \<Rightarrow> FactorGraph \<Rightarrow> Factor \<Rightarrow> vref \<times> nat \<Rightarrow> bool" where
  "block_ok h g f p =
     (variableID (var_at h (fst p)) < length (var_nodes g)
      \<and> id_offset h g (variableID (var_at h (fst p))) + dofs (var_at h (fst p)) \<le> joint_dim h g
      \<and> snd p + dofs (var_at h (fst p)) \<le> length (eta (factor f)))"

definition factor_ok :: "heap \<Rightarrow> FactorGraph \<Rightarrow> fref \<Rightarrow> bool" where
  "factor_ok h g F =
     (fits (length (eta (factor (factor_at h F)))) (lam (factor (factor_at h F)))
      \<and> list_all (block_ok h g (factor_at h F))
           (blocks_from h 0 (adj_var_nodes (factor_at h F))))"

section \<open>Construction\<close>

text \<open>
  Modelled from the spec: the constructor \<open>NdimGaussian(dofs)\<close> of \<open>utils.gaussian\<close>, which is
  not among the sources. The specification gives it as \<open>identity(d)\<close>, the pair \<open>(0, 0)\<close>:
  \<open>eta\<close> is the zero vector of length \<open>d\<close> and \<open>lam\<close> the zero matrix of shape \<open>d\<close> by \<open>d\<close>.
\<close>

definition NdimGaussian_init :: "nat \<Rightarrow> NdimGaussian" where
  "NdimGaussian_init d = \<lparr>eta = zeros_vec d, lam = zeros d d\<rparr>"

definition VariableNode_init :: "nat \<Rightarrow> nat \<Rightarrow> VariableNode" where
  "VariableNode_init variable_id d =
     \<lparr>variableID = variable_id, adj_factors = [], mu = zeros_vec d, Sigma = zeros d d,
      belief = NdimGaussian_init d, prior = NdimGaussian_init d, dofs = d\<rparr>"

text \<open>
  \<open>Factor.__init__\<close>: the loop over \<open>adj_var_nodes\<close> appends, for each adjacent variable, its
  id to \<open>adj_vIDs\<close> and a fresh \<open>NdimGaussian(adj_var_node.dofs)\<close> to \<open>adj_beliefs\<close> and to
  \<open>messages\<close>, and adds its \<open>dofs\<close> to \<open>dofs_conditional_vars\<close>.
\<close>

definition Factor_init ::
  "heap \<Rightarrow> nat \<Rightarrow> vref list \<Rightarrow> nd \<Rightarrow> nd \<Rightarrow> real \<Rightarrow> (vec \<Rightarrow> nd) \<Rightarrow> (vec \<Rightarrow> jac) \<Rightarrow> string option \<Rightarrow> real
     \<Rightarrow> Factor"
where
  "Factor_init h factor_id adj measurement0 scale_factor0 gauss_noise_std meas_fn0 jac_fn0 loss0
      mahalanobis_threshold0 =
     (let dofs_conditional_vars = sum_list (map (\<lambda>u. dofs (var_at h u)) adj) in
      \<lparr>factorID = factor_id,
       adj_var_nodes = adj,
       adj_vIDs = map (\<lambda>u. variableID (var_at h u)) adj,
       adj_beliefs = map (\<lambda>u. NdimGaussian_init (dofs (var_at h u))) adj,
       messages = map (\<lambda>u. NdimGaussian_init (dofs (var_at h u))) adj,
       factor = NdimGaussian_init dofs_conditional_vars,
       linpoint = zeros_vec dofs_conditional_vars,
       measurement = measurement0,
       scale_factor = scale_factor0,
       gauss_noise_var = gauss_noise_std ^ 2,
       meas_fn = meas_fn0,
       jac_fn = jac_fn0,
       adaptive_gauss_noise_var = gauss_noise_std ^ 2,
       loss = loss0,
       mahalanobis_threshold = mahalanobis_threshold0,
       robust_flag = False,
       eta_damping = 0,
       iters_since_relin = 1\<rparr>)"

section \<open>VariableNode.update_belief\<close>

text \<open>\<open>xs.index(x)\<close>: the position of the first element equal to \<open>x\<close>, or \<open>ValueError\<close>.\<close>

definition first_index :: "nat list \<Rightarrow> nat \<Rightarrow> nat" where
  "first_index xs x = length (takeWhile (\<lambda>y. y \<noteq> x) xs)"

definition list_index :: "nat list \<Rightarrow> nat \<Rightarrow> error + nat" where
  "list_index xs x = (if x \<in> set xs then Inr (first_index xs x) else Inl ValueError)"

text \<open>
  The first loop: \<open>eta_b\<close> and \<open>lam_b\<close> are the local arrays \<open>eta\<close> and \<open>lam\<close>, copies of the
  prior's, to which the message of each adjacent factor is added in place. Nothing of the
  graph is changed yet.
\<close>

fun gather_messages :: "heap \<Rightarrow> nat \<Rightarrow> vec \<Rightarrow> mat \<Rightarrow> fref list \<Rightarrow> error + (vec \<times> mat)" where
  "gather_messages h vid eta_b lam_b [] = Inr (eta_b, lam_b)"
| "gather_messages h vid eta_b lam_b (r # rs) =
     (case list_index (adj_vIDs (factor_at h r)) vid of
        Inl e \<Rightarrow> Inl e
      | Inr message_ix \<Rightarrow>
          if message_ix < length (messages (factor_at h r)) then
            (case vadd eta_b (eta (messages (factor_at h r) ! message_ix)) of
               Inl e \<Rightarrow> Inl e
             | Inr eta1 \<Rightarrow>
                 (case madd lam_b (lam (messages (factor_at h r) ! message_ix)) of
                    Inl e \<Rightarrow> Inl e
                  | Inr lam1 \<Rightarrow> gather_messages h vid eta1 lam1 rs))
          else Inl IndexError)"

text \<open>
  The second loop writes \<open>self.belief.eta\<close> and \<open>self.belief.lam\<close> into the slot
  \<open>factor.adj_beliefs[belief_ix]\<close> of each adjacent factor.
\<close>

fun send_belief :: "nat \<Rightarrow> vec \<Rightarrow> mat \<Rightarrow> fref list \<Rightarrow> heap \<Rightarrow> heap \<times> error option" where
  "send_belief vid eta_b lam_b [] h = (h, None)"
| "send_belief vid eta_b lam_b (r # rs) h =
     (case list_index (adj_vIDs (factor_at h r)) vid of
        Inl e \<Rightarrow> (h, Some e)
      | Inr belief_ix \<Rightarrow>
          if belief_ix < length (adj_beliefs (factor_at h r)) then
            send_belief vid eta_b lam_b rs
              (h\<lparr>factor_at := (factor_at h)
                  (r := (factor_at h r)
                     \<lparr>adj_beliefs := (adj_beliefs (factor_at h r))
                        [belief_ix := (adj_beliefs (factor_at h r) ! belief_ix)
                                        \<lparr>eta := eta_b, lam := lam_b\<rparr>]\<rparr>)\<rparr>)
          else (h, Some IndexError))"

text \<open>
  A raised exception leaves the objects as they are at that point: \<open>update_belief\<close> returns
  the store it has reached together with the exception, if any.
\<close>

definition update_belief :: "vref \<Rightarrow> heap \<Rightarrow> heap \<times> error option" where
  "update_belief v h =
     (let self = var_at h v in
      case gather_messages h (variableID self) (eta (prior self)) (lam (prior self))
             (adj_factors self) of
        Inl e \<Rightarrow> (h, Some e)
      | Inr (eta_b, lam_b) \<Rightarrow>
          (let h1 = h\<lparr>var_at := (var_at h)
                       (v := self\<lparr>belief := (belief self)\<lparr>eta := eta_b, lam := lam_b\<rparr>\<rparr>)\<rparr> in
           case np_linalg_inv lam_b of
             Inl e \<Rightarrow> (h1, Some e)
           | Inr S \<Rightarrow>
               (let h2 = h1\<lparr>var_at := (var_at h1) (v := (var_at h1 v)\<lparr>Sigma := S\<rparr>)\<rparr> in
                case matvec S eta_b of
                  Inl e \<Rightarrow> (h2, Some e)
                | Inr m \<Rightarrow>
                    send_belief (variableID self) eta_b lam_b (adj_factors self)
                      (h2\<lparr>var_at := (var_at h2) (v := (var_at h2 v)\<lparr>mu := m\<rparr>)\<rparr>))))"

fun update_beliefs_loop :: "vref list \<Rightarrow> heap \<Rightarrow> heap \<times> error option" where
  "update_beliefs_loop [] h = (h, None)"
| "update_beliefs_loop (v # vs) h =
     (case update_belief v h of
        (h', None) \<Rightarrow> update_beliefs_loop vs h'
      | (h', Some e) \<Rightarrow> (h', Some e))"

definition update_all_beliefs :: "FactorGraph \<Rightarrow> heap \<Rightarrow> heap \<times> error option" where
  "update_all_beliefs g h = update_beliefs_loop (var_nodes g) h"

subsection \<open>The product of the prior and the incoming messages\<close>

text \<open>
  What the specification asks of the belief: the component-wise sum of the prior and, for
  each adjacent factor \<open>F\<close>, of the message \<open>F.messages[F.adj_vIDs.index(id)]\<close>.
\<close>

definition inbound_message :: "heap \<Rightarrow> nat \<Rightarrow> fref \<Rightarrow> NdimGaussian" where
  "inbound_message h vid F =
     messages (factor_at h F) ! first_index (adj_vIDs (factor_at h F)) vid"

definition product_eta :: "heap \<Rightarrow> vref \<Rightarrow> vec" where
  "product_eta h v =
     map (\<lambda>k. eta (prior (var_at h v)) ! k
               + (\<Sum>F\<leftarrow>adj_factors (var_at h v).
                    eta (inbound_message h (variableID (var_at h v)) F) ! k))
       [0..<length (eta (prior (var_at h v)))]"

definition product_lam :: "heap \<Rightarrow> vref \<Rightarrow> mat" where
  "product_lam h v =
     Mat (ncols (lam (prior (var_at h v))))
       (map (\<lambda>i. map (\<lambda>j. rows (lam (prior (var_at h v))) ! i ! j
                          + (\<Sum>F\<leftarrow>adj_factors (var_at h v).
                               rows (lam (inbound_message h (variableID (var_at h v)) F)) ! i ! j))
                   [0..<ncols (lam (prior (var_at h v)))])
          [0..<nrows (lam (prior (var_at h v)))])"

text \<open>
  The data model's conditions on a variable \<open>v\<close> and its adjacent factors: the prior has
  size \<open>dofs\<close>; each adjacent factor lists the variable's id, and has a message and a belief
  slot at that position; the message has size \<open>dofs\<close>.
\<close>

definition edge_ok :: "heap \<Rightarrow> nat \<Rightarrow> nat \<Rightarrow> fref \<Rightarrow> bool" where
  "edge_ok h vid d F =
     (vid \<in> set (adj_vIDs (factor_at h F))
      \<and> first_index (adj_vIDs (factor_at h F)) vid < length (messages (factor_at h F))
      \<and> first_index (adj_vIDs (factor_at h F)) vid < length (adj_beliefs (factor_at h F))
      \<and> sized d (inbound_message h vid F))"

definition variable_ok :: "heap \<Rightarrow> vref \<Rightarrow> bool" where
  "variable_ok h v =
     (sized (dofs (var_at h v)) (prior (var_at h v))
      \<and> list_all (edge_ok h (variableID (var_at h v)) (dofs (var_at h v)))
           (adj_factors (var_at h v)))"

text \<open>The belief slot of a factor for the variable with id \<open>vid\<close>, and the factor with that slot overwritten.\<close>

definition slot_ok :: "heap \<Rightarrow> nat \<Rightarrow> fref \<Rightarrow> bool" where
  "slot_ok h vid F =
     (vid \<in> set (adj_vIDs (factor_at h F))
      \<and> first_index (adj_vIDs (factor_at h F)) vid < length (adj_beliefs (factor_at h F)))"

definition with_belief :: "nat \<Rightarrow> vec \<Rightarrow> mat \<Rightarrow> Factor \<Rightarrow> Factor" where
  "with_belief vid e L f =
     f\<lparr>adj_beliefs := (adj_beliefs f)[first_index (adj_vIDs f) vid := \<lparr>eta = e, lam = L\<rparr>]\<rparr>"

text \<open>
  A factor whose \<open>adj_vIDs\<close> and \<open>messages\<close> are as \<open>Factor.__init__\<close> left them (the constructor
  is the only place that sets \<open>adj_vIDs\<close>; \<open>compute_messages\<close> is the only one that changes
  \<open>messages\<close>).
\<close>

definition as_constructed :: "heap \<Rightarrow> Factor \<Rightarrow> bool" where
  "as_constructed h f =
     (adj_vIDs f = map (\<lambda>u. variableID (var_at h u)) (adj_var_nodes f)
      \<and> messages f = map (\<lambda>u. NdimGaussian_init (dofs (var_at h u))) (adj_var_nodes f)
      \<and> length (adj_beliefs f) = length (adj_var_nodes f))"

section \<open>Example objects\<close>

definition gaussian0 :: NdimGaussian where
  "gaussian0 = \<lparr>eta = [], lam = Mat 0 []\<rparr>"

definition factor0 :: Factor where
  "factor0 = \<lparr>factorID = 0, adj_var_nodes = [], adj_vIDs = [], adj_beliefs = [], messages = [],
     factor = gaussian0, linpoint = [], measurement = Scalar 0, scale_factor = Scalar 0,
     gauss_noise_var = 1, meas_fn = (\<lambda>x. Scalar 0), jac_fn = (\<lambda>x. Jrow []),
     adaptive_gauss_noise_var = 1, loss = None, mahalanobis_threshold = 2, robust_flag = False,
     eta_damping = 0, iters_since_relin = 1\<rparr>"

definition variable0 :: VariableNode where
  "variable0 = \<lparr>variableID = 0, adj_factors = [], mu = [], Sigma = Mat 0 [],
     belief = gaussian0, prior = gaussian0, dofs = 0\<rparr>"

definition heatmap0 :: heap_map where
  "heatmap0 = \<lparr>kf_Lambda = [], lm_Lambda = [], iteration = 1\<rparr>"

definition graph0 :: FactorGraph where
  "graph0 = \<lparr>var_nodes = [], factors = [], heatmap = heatmap0, nonlinear_factors = True,
     graph_eta_damping = 0, beta = 0, num_undamped_iters = 0, min_linear_iters = 1\<rparr>"

text \<open>
  One variable observed by two factors: \<open>var_nodes = [v0]\<close>, \<open>factors = [f0, f1]\<close>,
  \<open>v0.adj_factors = [f0, f1]\<close>, and both factors have \<open>adj_var_nodes = [v0]\<close>.
\<close>

definition heap_two_obs :: heap where
  "heap_two_obs = \<lparr>var_at = (\<lambda>r. variable0\<lparr>adj_factors := [0, 1]\<rparr>),
     factor_at = (\<lambda>r. factor0\<lparr>factorID := r, adj_var_nodes := [0], adj_vIDs := [0]\<rparr>)\<rparr>"

definition graph_two_obs :: FactorGraph where
  "graph_two_obs = graph0\<lparr>var_nodes := [0], factors := [0, 1]\<rparr>"

text \<open>
  Scenario 4 of the specification: a one-dimensional factor with measurement 10, nominal
  variance 1, prediction 0 at the linearisation point and Huber threshold 2.
\<close>

definition huber_factor :: Factor where
  "huber_factor = factor0\<lparr>loss := Some ''huber'', measurement := Scalar 10,
     meas_fn := (\<lambda>x. Scalar 0), linpoint := [0],
     adj_beliefs := [\<lparr>eta = [0], lam = Mat 1 [[1]]\<rparr>],
     factor := \<lparr>eta = [10], lam = Mat 1 [[1]]\<rparr>\<rparr>"

text \<open>The same factor after \<open>robustify_loss\<close>, with its loss switched off by the caller.\<close>

definition reverting_factor :: Factor where
  "reverting_factor = huber_factor\<lparr>adaptive_gauss_noise_var := 25 / 9, robust_flag := True,
     factor := \<lparr>eta = [18 / 5], lam = Mat 1 [[9 / 25]]\<rparr>, loss := None\<rparr>"

text \<open>A factor that an earlier call has left at four times its nominal variance.\<close>

definition reweighted_factor :: Factor where
  "reweighted_factor = factor0\<lparr>adaptive_gauss_noise_var := 4,
     factor := \<lparr>eta = [1], lam = Mat 1 [[1]]\<rparr>\<rparr>"

text \<open>
  A factor on one variable with belief mean 2, measurement function \<open>h(x) = x[0]\<close>,
  measurement 1, \<open>scale_factor\<close> 3 and variance 1: its residual is 1.
\<close>

definition energy_factor :: Factor where
  "energy_factor = factor0\<lparr>adj_beliefs := [\<lparr>eta = [2], lam = Mat 1 [[1]]\<rparr>],
     meas_fn := (\<lambda>x. Scalar (hd x)), measurement := Scalar 1, scale_factor := Scalar 3\<rparr>"

definition energy_heap :: heap where
  "energy_heap = \<lparr>var_at = (\<lambda>r. variable0), factor_at = (\<lambda>r. energy_factor)\<rparr>"

definition energy_graph :: FactorGraph where
  "energy_graph = graph0\<lparr>var_nodes := [0], factors := [0]\<rparr>"

text \<open>
  A one-dimensional variable with prior \<open>(1, 1)\<close> and one adjacent factor, whose message to
  it is \<open>(2, 3)\<close>; in the second store the message is \<open>(2, -1)\<close>, so that the summed
  precision is zero. The variable's \<open>mu\<close>, \<open>Sigma\<close> and belief, and the factor's belief slot,
  hold older values.
\<close>

definition belief_heap :: heap where
  "belief_heap =
     \<lparr>var_at = (\<lambda>r. variable0\<lparr>adj_factors := [0], dofs := 1, mu := [7], Sigma := Mat 1 [[9]],
                    belief := \<lparr>eta = [5], lam = Mat 1 [[6]]\<rparr>,
                    prior := \<lparr>eta = [1], lam = Mat 1 [[1]]\<rparr>\<rparr>),
      factor_at = (\<lambda>r. factor0\<lparr>adj_var_nodes := [0], adj_vIDs := [0],
                    adj_beliefs := [\<lparr>eta = [5], lam = Mat 1 [[6]]\<rparr>],
                    messages := [\<lparr>eta = [2], lam = Mat 1 [[3]]\<rparr>]\<rparr>)\<rparr>"

definition singular_heap :: heap where
  "singular_heap =
     \<lparr>var_at = (\<lambda>r. variable0\<lparr>adj_factors := [0], dofs := 1, mu := [7], Sigma := Mat 1 [[9]],
                    belief := \<lparr>eta = [5], lam = Mat 1 [[6]]\<rparr>,
                    prior := \<lparr>eta = [1], lam = Mat 1 [[1]]\<rparr>\<rparr>),
      factor_at = (\<lambda>r. factor0\<lparr>adj_var_nodes := [0], adj_vIDs := [0],
                    adj_beliefs := [\<lparr>eta = [5], lam = Mat 1 [[6]]\<rparr>],
                    messages := [\<lparr>eta = [2], lam = Mat 1 [[- 1]]\<rparr>]\<rparr>)\<rparr>"

text \<open>
  A variable with prior \<open>(1, 2)\<close> and a factor just constructed on it by \<open>Factor.__init__\<close>.
\<close>

definition fresh_vars :: heap where
  "fresh_vars =
     \<lparr>var_at = (\<lambda>r. (VariableNode_init 0 1)\<lparr>adj_factors := [0],
                         prior := \<lparr>eta = [1], lam = Mat 1 [[2]]\<rparr>\<rparr>),
      factor_at = (\<lambda>r. factor0)\<rparr>"

definition fresh_heap :: heap where
  "fresh_heap = fresh_vars\<lparr>factor_at :=
     (\<lambda>r. Factor_init fresh_vars 0 [0] (Scalar 0) (Scalar 1) 1 (\<lambda>x. Scalar 0) (\<lambda>x. Jrow [0])
            None 2)\<rparr>"

text \<open>
  A Huber factor on that variable as \<open>Factor.__init__\<close> leaves it: measurement 10, prediction
  0, standard deviation 1 and threshold 2. Its one adjacent belief is the zero Gaussian.
\<close>

definition fresh_huber_factor :: Factor where
  "fresh_huber_factor =
     Factor_init fresh_vars 0 [0] (Scalar 10) (Scalar 1) 1 (\<lambda>x. Scalar 0) (\<lambda>x. Jrow [0])
       (Some ''huber'') 2"

text \<open>
  Scenario 6 of the specification: \<open>beta = 0.1\<close> and \<open>min_linear_iters = 3\<close>. The factor
  measures \<open>h(x) = x[0]\<close> with Jacobian \<open>[1]\<close>; it was linearised at 0 and its adjacent belief
  has mean 1. \<open>drift\<close> is what happens to it between two calls in the scenario: the
  adjacent belief moves one unit away from the linearisation point.
\<close>

definition relin_graph :: FactorGraph where
  "relin_graph = graph0\<lparr>var_nodes := [0], factors := [0], nonlinear_factors := True,
     beta := 1 / 10, min_linear_iters := 3\<rparr>"

definition linear_graph :: FactorGraph where
  "linear_graph = relin_graph\<lparr>nonlinear_factors := False\<rparr>"

definition drifting_factor :: Factor where
  "drifting_factor = factor0\<lparr>adj_beliefs := [\<lparr>eta = [1], lam = Mat 1 [[1]]\<rparr>], linpoint := [0],
     measurement := Scalar 2, meas_fn := (\<lambda>x. Scalar (hd x)), jac_fn := (\<lambda>x. Jrow [1]),
     iters_since_relin := 3\<rparr>"

definition relin_heap :: heap where
  "relin_heap = \<lparr>var_at = (\<lambda>r. variable0), factor_at = (\<lambda>r. drifting_factor)\<rparr>"

definition drift :: "Factor \<Rightarrow> Factor" where
  "drift f = f\<lparr>adj_beliefs := [\<lparr>eta = [hd (linpoint f) + 1], lam = Mat 1 [[1]]\<rparr>]\<rparr>"

text \<open>
  Scenario 1 of the specification, before the first message: two one-dimensional variables
  with beliefs \<open>(0, 1)\<close>, and the factor of \<open>h(x) = x0 - x1\<close> with measurement 2 and variance
  1, linearised (\<open>eta = [2, -2]\<close>, \<open>lam = [[1, -1], [-1, 1]]\<close>), its messages still zero.
  \<open>heatmap1\<close> is a heatmap after \<open>next_iteration\<close>.
\<close>

definition pair_heap :: heap where
  "pair_heap = \<lparr>var_at = (\<lambda>r. variable0\<lparr>variableID := r, dofs := 1\<rparr>), factor_at = (\<lambda>r. factor0)\<rparr>"

definition difference_factor :: Factor where
  "difference_factor = factor0\<lparr>adj_var_nodes := [0, 1], adj_vIDs := [0, 1],
     adj_beliefs := [\<lparr>eta = [0], lam = Mat 1 [[1]]\<rparr>, \<lparr>eta = [0], lam = Mat 1 [[1]]\<rparr>],
     messages := [\<lparr>eta = [0], lam = Mat 1 [[0]]\<rparr>, \<lparr>eta = [0], lam = Mat 1 [[0]]\<rparr>],
     factor := \<lparr>eta = [2, - 2], lam = Mat 2 [[1, - 1], [- 1, 1]]\<rparr>,
     measurement := Scalar 2\<rparr>"

definition heatmap1 :: heap_map where
  "heatmap1 = \<lparr>kf_Lambda = [[]], lm_Lambda = [[]], iteration = 1\<rparr>"

text \<open>
  Three one-dimensional variables with ids 0, 1, 2 and priors \<open>(1, 1)\<close>, \<open>(2, 2)\<close>, \<open>(3, 3)\<close>,
  and one factor on the variables 2 and 0, in that order, with \<open>eta = [10, 20]\<close> and
  \<open>lam = [[2, 1], [1, 3]]\<close>. In \<open>tri_graph\<close> the variable list is in id order; in
  \<open>tri_graph_swapped\<close> the variables 1 and 2 have changed places.
\<close>

definition tri_heap :: heap where
  "tri_heap = \<lparr>var_at = (\<lambda>r. variable0\<lparr>variableID := r, dofs := 1,
                              prior := \<lparr>eta = [real r + 1], lam = Mat 1 [[real r + 1]]\<rparr>\<rparr>),
               factor_at = (\<lambda>r. factor0\<lparr>adj_var_nodes := [2, 0],
                              factor := \<lparr>eta = [10, 20], lam = Mat 2 [[2, 1], [1, 3]]\<rparr>\<rparr>)\<rparr>"

definition tri_graph :: FactorGraph where
  "tri_graph = graph0\<lparr>var_nodes := [0, 1, 2], factors := [0]\<rparr>"

definition tri_graph_swapped :: FactorGraph where
  "tri_graph_swapped = graph0\<lparr>var_nodes := [0, 2, 1], factors := [0]\<rparr>"

section \<open>Facts about arrays\<close>

lemma det_single: "det [[a]] = a"
  by (simp add: del_at_def)

lemma inv_single:
  "np_linalg_inv (Mat (Suc 0) [[a]]) =
     (if a = 0 then Inl LinAlgError else Inr (Mat (Suc 0) [[1 / a]]))"
  by (simp add: np_linalg_inv_def nrows_def cofactor_def del_at_def)

lemma vnorm_single: "vnorm [a] = \<bar>a\<bar>"
  by (simp add: vnorm_def)

lemma sum_squares_nonneg: "0 \<le> sum_list (map (\<lambda>x. x * x) (v :: real list))"
  by (induction v) simp_all

lemma vnorm_sq: "vnorm v ^ 2 = sum_list (map (\<lambda>x. x * x) v)"
  by (simp add: vnorm_def sum_squares_nonneg)

lemma vscale_vscale: "c * d = 1 \<Longrightarrow> vscale d (vscale c v) = v"
  by (induction v) (simp_all add: vscale_def mult.assoc)

lemma mscale_mscale:
  assumes cd: "c * d = 1"
  shows "mscale d (mscale c M) = M"
proof -
  have "map ((\<lambda>x. x * d) \<circ> (\<lambda>x. x * c)) r = r" for r :: "real list"
    using cd by (induction r) (simp_all add: mult.assoc)
  then have "map (map (\<lambda>x. x * d) \<circ> map (\<lambda>x. x * c)) rs = rs" for rs :: "real list list"
    by (induction rs) simp_all
  then show ?thesis by (cases M) (simp add: mscale_def)
qed

section \<open>Outlier pruning\<close>

text \<open>
  C1. After \<open>remove_outlier\<close> no variable's \<open>adj_factors\<close> should contain a pruned factor.
  With losses \<open>[500, 500]\<close> both factors of the example are pruned from the graph's factor
  list, and the call returns; but the walk over \<open>v0.adj_factors\<close> removes \<open>f0\<close> at position
  0, which moves \<open>f1\<close> to position 0, and then looks at position 1, which no longer exists.
  The pruned factor \<open>f1\<close> is still in \<open>v0.adj_factors\<close>.
\<close>

theorem remove_outlier_keeps_second_outlier:
  "(case remove_outlier heap_two_obs graph_two_obs [500, 500] of
      Inl e \<Rightarrow> False
    | Inr (h', g') \<Rightarrow> factors g' = [] \<and> adj_factors (var_at h' 0) = [1])"
  by (simp add: remove_outlier_def heap_two_obs_def graph_two_obs_def graph0_def
      prune_var_node_def drop_outliers.simps factor0_def variable0_def)

section \<open>Energy\<close>

text \<open>
  Whenever \<open>Factor.energy\<close> returns, the squared norm it divides by the variance is the
  squared norm of the residual plus the squared norm of \<open>scale_factor\<close>: the norm is taken
  of the tuple that \<open>compute_residual\<close> returns.
\<close>

lemma Factor_energy_adds_scale_factor:
  assumes "Factor_energy f = Inr e"
  shows "\<exists>d s. compute_residual f = Inr (d, s) \<and> s = scale_factor f
           \<and> e = 0.5 * (nd_norm d ^ 2 + nd_norm s ^ 2) / adaptive_gauss_noise_var f"
proof -
  from assms obtain d s n where res: "compute_residual f = Inr (d, s)"
    and n: "norm_tuple (d, s) = Inr n" and e: "e = 0.5 * n ^ 2 / adaptive_gauss_noise_var f"
    by (auto simp: Factor_energy_def split: sum.splits)
  from res have s: "s = scale_factor f"
    by (auto simp: compute_residual_def split: sum.splits)
  from n have "n ^ 2 = nd_norm d ^ 2 + nd_norm s ^ 2"
    by (cases d; cases s) (auto simp: vnorm_sq split: if_splits)
  with res s e show ?thesis by simp
qed

text \<open>
  C2. The energy of a factor should be half the squared norm of the residual
  \<open>h(mu_adj) - z\<close> over the adaptive variance, with nothing else under the norm. The example
  factor has residual 1 and variance 1, so its energy should be \<open>1/2\<close>; the code returns 5,
  because the norm is taken of the pair (residual, \<open>scale_factor\<close>) = (1, 3). The graph's
  energy, the sum over its one factor, is 5 as well.
\<close>

theorem energy_takes_norm_of_tuple:
  "compute_residual energy_factor = Inr (Scalar 1, Scalar 3)
   \<and> Factor_energy energy_factor = Inr 5
   \<and> FactorGraph_energy energy_heap energy_graph = Inr 5
   \<and> 0.5 * nd_norm (Scalar 1) ^ 2 / adaptive_gauss_noise_var energy_factor = 1 / 2"
  by (simp add: compute_residual_def Factor_energy_def FactorGraph_energy_def energy_factor_def
      energy_heap_def energy_graph_def graph0_def factor0_def inv_single matvec_def dot_def
      vnorm_sq vnorm_single)

section \<open>Belief update\<close>

lemma vadd_nth: "length a = d \<Longrightarrow> length b = d \<Longrightarrow> vadd a b = Inr (map (\<lambda>k. a ! k + b ! k) [0..<d])"
  by (auto simp: vadd_def intro!: nth_equalityI)

lemma madd_nth:
  assumes "nrows A = r" "ncols A = c" "wf_mat A" "nrows B = r" "ncols B = c" "wf_mat B"
  shows "madd A B = Inr (Mat c (map (\<lambda>i. map (\<lambda>j. rows A ! i ! j + rows B ! i ! j) [0..<c]) [0..<r]))"
  using assms
  by (auto simp: madd_def same_shape_def nrows_def wf_mat_def list_all_length intro!: nth_equalityI)

lemma mat_entries:
  assumes "nrows A = r" "ncols A = c" "wf_mat A"
  shows "A = Mat c (map (\<lambda>i. map (\<lambda>j. rows A ! i ! j) [0..<c]) [0..<r])"
  using assms
  by (cases A) (auto simp: nrows_def wf_mat_def list_all_length intro!: nth_equalityI)

lemma wf_mat_entries [simp]: "wf_mat (Mat c (map (\<lambda>i. map (f i) [0..<c]) is))"
  by (simp add: wf_mat_def list_all_iff)

lemma gather_messages_sum:
  assumes "list_all (edge_ok h vid d) fs" "length e0 = d" "nrows L0 = d" "ncols L0 = d" "wf_mat L0"
  shows "gather_messages h vid e0 L0 fs =
           Inr (map (\<lambda>k. e0 ! k + (\<Sum>F\<leftarrow>fs. eta (inbound_message h vid F) ! k)) [0..<d],
                Mat d (map (\<lambda>i. map (\<lambda>j. rows L0 ! i ! j
                                   + (\<Sum>F\<leftarrow>fs. rows (lam (inbound_message h vid F)) ! i ! j))
                                [0..<d]) [0..<d]))"
  using assms
proof (induction fs arbitrary: e0 L0)
  case Nil
  then have "map (\<lambda>k. e0 ! k) [0..<d] = e0"
    by (auto intro!: nth_equalityI)
  moreover have "Mat d (map (\<lambda>i. map (\<lambda>j. rows L0 ! i ! j) [0..<d]) [0..<d]) = L0"
    using mat_entries [of L0 d d] Nil by simp
  ultimately show ?case by simp
next
  case (Cons F fs)
  let ?m = "inbound_message h vid F"
  from Cons.prems have ok: "edge_ok h vid d F" and rest: "list_all (edge_ok h vid d) fs" by simp_all
  from ok have m: "sized d ?m" by (simp add: edge_ok_def)
  let ?e1 = "map (\<lambda>k. e0 ! k + eta ?m ! k) [0..<d]"
  let ?L1 = "Mat d (map (\<lambda>i. map (\<lambda>j. rows L0 ! i ! j + rows (lam ?m) ! i ! j) [0..<d]) [0..<d])"
  have e1: "vadd e0 (eta ?m) = Inr ?e1"
    using Cons.prems m by (intro vadd_nth) (simp_all add: sized_def)
  have L1: "madd L0 (lam ?m) = Inr ?L1"
    using Cons.prems m by (intro madd_nth) (simp_all add: sized_def)
  have step: "gather_messages h vid e0 L0 (F # fs) = gather_messages h vid ?e1 ?L1 fs"
    using ok e1 L1 by (simp add: edge_ok_def list_index_def inbound_message_def)
  have "gather_messages h vid ?e1 ?L1 fs =
           Inr (map (\<lambda>k. ?e1 ! k + (\<Sum>F\<leftarrow>fs. eta (inbound_message h vid F) ! k)) [0..<d],
                Mat d (map (\<lambda>i. map (\<lambda>j. rows ?L1 ! i ! j
                                   + (\<Sum>F\<leftarrow>fs. rows (lam (inbound_message h vid F)) ! i ! j))
                                [0..<d]) [0..<d]))"
    by (rule Cons.IH [OF rest]) (simp_all add: nrows_def)
  then show ?case
    unfolding step by (simp add: add.assoc)
qed

lemma product_sized:
  assumes "sized d (prior (var_at h v))"
  shows "length (product_eta h v) = d" "nrows (product_lam h v) = d" "ncols (product_lam h v) = d"
  using assms by (simp_all add: sized_def product_eta_def product_lam_def nrows_def)

lemma gather_messages_product:
  assumes "variable_ok h v"
  shows "gather_messages h (variableID (var_at h v)) (eta (prior (var_at h v)))
           (lam (prior (var_at h v))) (adj_factors (var_at h v))
         = Inr (product_eta h v, product_lam h v)"
proof -
  let ?d = "dofs (var_at h v)"
  from assms have p: "sized ?d (prior (var_at h v))"
    and es: "list_all (edge_ok h (variableID (var_at h v)) ?d) (adj_factors (var_at h v))"
    by (simp_all add: variable_ok_def)
  show ?thesis
    using gather_messages_sum [OF es, of "eta (prior (var_at h v))" "lam (prior (var_at h v))"] p
    by (simp add: sized_def product_eta_def product_lam_def)
qed

lemma gaussian_overwrite: "(G :: NdimGaussian)\<lparr>eta := e, lam := L\<rparr> = \<lparr>eta = e, lam = L\<rparr>"
  by (cases G) simp

lemma send_belief_closed:
  assumes "list_all (slot_ok h vid) fs"
  shows "send_belief vid e L fs h =
           (h\<lparr>factor_at := (\<lambda>F. if F \<in> set fs then with_belief vid e L (factor_at h F)
                                 else factor_at h F)\<rparr>, None)"
  using assms
proof (induction fs arbitrary: h)
  case Nil
  then show ?case by simp
next
  case (Cons F fs)
  let ?h1 = "h\<lparr>factor_at := (factor_at h) (F := with_belief vid e L (factor_at h F))\<rparr>"
  from Cons.prems have F: "slot_ok h vid F" and rest: "list_all (slot_ok h vid) fs" by simp_all
  have step: "send_belief vid e L (F # fs) h = send_belief vid e L fs ?h1"
    using F by (simp add: slot_ok_def list_index_def with_belief_def gaussian_overwrite)
  have rest1: "list_all (slot_ok ?h1 vid) fs"
    using rest by (auto simp: list_all_iff slot_ok_def with_belief_def)
  have ih: "send_belief vid e L fs ?h1 =
           (?h1\<lparr>factor_at := (\<lambda>G. if G \<in> set fs then with_belief vid e L (factor_at ?h1 G)
                                 else factor_at ?h1 G)\<rparr>, None)"
    by (rule Cons.IH [OF rest1])
  have eq: "(\<lambda>G. if G \<in> set fs then with_belief vid e L (factor_at ?h1 G) else factor_at ?h1 G)
           = (\<lambda>G. if G \<in> set (F # fs) then with_belief vid e L (factor_at h G) else factor_at h G)"
    by (auto simp: fun_eq_iff with_belief_def)
  show ?case
    by (simp only: step ih eq) simp
qed

lemma update_belief_fails:
  assumes ok: "variable_ok h v" and singular: "det (rows (product_lam h v)) = 0"
  shows "update_belief v h =
           (h\<lparr>var_at := (var_at h)
                (v := (var_at h v)\<lparr>belief := \<lparr>eta = product_eta h v, lam = product_lam h v\<rparr>\<rparr>)\<rparr>,
            Some LinAlgError)"
  using singular
  by (simp add: update_belief_def Let_def gather_messages_product [OF ok] np_linalg_inv_def
      gaussian_overwrite)

lemma update_belief_succeeds:
  assumes ok: "variable_ok h v" and regular: "det (rows (product_lam h v)) \<noteq> 0"
  shows "\<exists>S m. np_linalg_inv (product_lam h v) = Inr S \<and> matvec S (product_eta h v) = Inr m
           \<and> update_belief v h =
               (h\<lparr>var_at := (var_at h)
                   (v := (var_at h v)\<lparr>belief := \<lparr>eta = product_eta h v, lam = product_lam h v\<rparr>,
                                      Sigma := S, mu := m\<rparr>),
                 factor_at := (\<lambda>F. if F \<in> set (adj_factors (var_at h v))
                                   then with_belief (variableID (var_at h v)) (product_eta h v)
                                          (product_lam h v) (factor_at h F)
                                   else factor_at h F)\<rparr>, None)"
proof -
  let ?d = "dofs (var_at h v)"
  from ok have p: "sized ?d (prior (var_at h v))"
    and es: "list_all (edge_ok h (variableID (var_at h v)) ?d) (adj_factors (var_at h v))"
    by (simp_all add: variable_ok_def)
  note sz = product_sized [OF p]
  obtain S where S: "np_linalg_inv (product_lam h v) = Inr S" and cS: "ncols S = ?d"
    using regular sz by (simp add: np_linalg_inv_def)
  obtain m where m: "matvec S (product_eta h v) = Inr m"
    using cS sz by (simp add: matvec_def)
  let ?h3 = "h\<lparr>var_at := (var_at h)
      (v := (var_at h v)\<lparr>belief := \<lparr>eta = product_eta h v, lam = product_lam h v\<rparr>,
                         Sigma := S, mu := m\<rparr>)\<rparr>"
  have slots: "list_all (slot_ok ?h3 (variableID (var_at h v))) (adj_factors (var_at h v))"
    using es by (auto simp: list_all_iff slot_ok_def edge_ok_def)
  have "update_belief v h =
          send_belief (variableID (var_at h v)) (product_eta h v) (product_lam h v)
            (adj_factors (var_at h v)) ?h3"
    by (simp add: update_belief_def Let_def gather_messages_product [OF ok] S m
        gaussian_overwrite)
  then show ?thesis
    using S m by (simp add: send_belief_closed [OF slots] cong: if_cong)
qed

lemma with_belief_fields [simp]:
  "adj_vIDs (with_belief vid e L f) = adj_vIDs f"
  "messages (with_belief vid e L f) = messages f"
  "length (adj_beliefs (with_belief vid e L f)) = length (adj_beliefs f)"
  by (simp_all add: with_belief_def)

text \<open>
  C7. On a variable that satisfies the data model and whose summed precision is not
  singular, \<open>update_belief\<close> returns without an exception, and afterwards: the belief is the
  component-wise sum of the prior and of the message \<open>F.messages[F.adj_vIDs.index(id)]\<close> of
  every adjacent factor \<open>F\<close>; \<open>Sigma\<close> is the inverse of the belief's \<open>lam\<close> and \<open>mu\<close> is
  \<open>Sigma\<close> times the belief's \<open>eta\<close>; the slot \<open>F.adj_beliefs[F.adj_vIDs.index(id)]\<close> of every
  adjacent factor holds the new belief (Invariant 1 for this variable); the messages and
  the prior are as before.
\<close>

theorem update_belief_product:
  assumes ok: "variable_ok h v" and regular: "det (rows (product_lam h v)) \<noteq> 0"
  shows "\<exists>h' S m. update_belief v h = (h', None)
           \<and> belief (var_at h' v) = \<lparr>eta = product_eta h v, lam = product_lam h v\<rparr>
           \<and> np_linalg_inv (product_lam h v) = Inr S \<and> Sigma (var_at h' v) = S
           \<and> matvec S (product_eta h v) = Inr m \<and> mu (var_at h' v) = m
           \<and> (\<forall>F \<in> set (adj_factors (var_at h v)).
                 adj_beliefs (factor_at h' F)
                   ! first_index (adj_vIDs (factor_at h F)) (variableID (var_at h v))
                 = belief (var_at h' v))
           \<and> (\<forall>F. messages (factor_at h' F) = messages (factor_at h F))
           \<and> prior (var_at h' v) = prior (var_at h v)"
proof -
  from update_belief_succeeds [OF ok regular] obtain S m where
    S: "np_linalg_inv (product_lam h v) = Inr S" and m: "matvec S (product_eta h v) = Inr m"
    and run: "update_belief v h =
               (h\<lparr>var_at := (var_at h)
                   (v := (var_at h v)\<lparr>belief := \<lparr>eta = product_eta h v, lam = product_lam h v\<rparr>,
                                      Sigma := S, mu := m\<rparr>),
                 factor_at := (\<lambda>F. if F \<in> set (adj_factors (var_at h v))
                                   then with_belief (variableID (var_at h v)) (product_eta h v)
                                          (product_lam h v) (factor_at h F)
                                   else factor_at h F)\<rparr>, None)"
    by blast
  from ok have slots: "\<forall>F \<in> set (adj_factors (var_at h v)).
      first_index (adj_vIDs (factor_at h F)) (variableID (var_at h v))
        < length (adj_beliefs (factor_at h F))"
    by (auto simp: variable_ok_def list_all_iff edge_ok_def)
  let ?h' = "h\<lparr>var_at := (var_at h)
                   (v := (var_at h v)\<lparr>belief := \<lparr>eta = product_eta h v, lam = product_lam h v\<rparr>,
                                      Sigma := S, mu := m\<rparr>),
                 factor_at := (\<lambda>F. if F \<in> set (adj_factors (var_at h v))
                                   then with_belief (variableID (var_at h v)) (product_eta h v)
                                          (product_lam h v) (factor_at h F)
                                   else factor_at h F)\<rparr>"
  show ?thesis
    using S m slots
    by (intro exI [of _ ?h'] exI [of _ S] exI [of _ m]) (simp add: run with_belief_def)
qed

theorem update_belief_product_witness:
  "variable_ok belief_heap 0 \<and> det (rows (product_lam belief_heap 0)) \<noteq> 0
   \<and> snd (update_belief 0 belief_heap) = None
   \<and> belief (var_at (fst (update_belief 0 belief_heap)) 0) = \<lparr>eta = [3], lam = Mat 1 [[4]]\<rparr>
   \<and> Sigma (var_at (fst (update_belief 0 belief_heap)) 0) = Mat 1 [[1 / 4]]
   \<and> mu (var_at (fst (update_belief 0 belief_heap)) 0) = [3 / 4]
   \<and> adj_beliefs (factor_at (fst (update_belief 0 belief_heap)) 0) ! 0
       = \<lparr>eta = [3], lam = Mat 1 [[4]]\<rparr>
   \<and> prior (var_at (fst (update_belief 0 belief_heap)) 0) = \<lparr>eta = [1], lam = Mat 1 [[1]]\<rparr>"
proof -
  have ok: "variable_ok belief_heap 0"
    by (simp add: variable_ok_def edge_ok_def sized_def belief_heap_def variable0_def factor0_def
        first_index_def inbound_message_def nrows_def wf_mat_def)
  have pe: "product_eta belief_heap 0 = [3]"
    by (simp add: product_eta_def belief_heap_def variable0_def factor0_def first_index_def
        inbound_message_def)
  have pl: "product_lam belief_heap 0 = Mat 1 [[4]]"
    by (simp add: product_lam_def belief_heap_def variable0_def factor0_def first_index_def
        inbound_message_def nrows_def)
  have regular: "det (rows (product_lam belief_heap 0)) \<noteq> 0"
    by (simp add: pl det_single)
  from update_belief_product [OF ok regular] obtain h' S m where
    run: "update_belief 0 belief_heap = (h', None)"
    and b: "belief (var_at h' 0) = \<lparr>eta = product_eta belief_heap 0, lam = product_lam belief_heap 0\<rparr>"
    and S: "np_linalg_inv (product_lam belief_heap 0) = Inr S" "Sigma (var_at h' 0) = S"
    and m: "matvec S (product_eta belief_heap 0) = Inr m" "mu (var_at h' 0) = m"
    and slot: "\<forall>F \<in> set (adj_factors (var_at belief_heap 0)).
        adj_beliefs (factor_at h' F)
          ! first_index (adj_vIDs (factor_at belief_heap F)) (variableID (var_at belief_heap 0))
        = belief (var_at h' 0)"
    and p: "prior (var_at h' 0) = prior (var_at belief_heap 0)"
    by blast
  from S have S': "Sigma (var_at h' 0) = Mat 1 [[1 / 4]]"
    by (simp add: pl inv_single)
  from m S S' have m': "mu (var_at h' 0) = [3 / 4]"
    by (auto simp: pe matvec_def dot_def)
  from slot have slot': "adj_beliefs (factor_at h' 0) ! 0 = belief (var_at h' 0)"
    by (simp add: belief_heap_def variable0_def factor0_def first_index_def)
  from p have p': "prior (var_at h' 0) = \<lparr>eta = [1], lam = Mat 1 [[1]]\<rparr>"
    by (simp add: belief_heap_def variable0_def)
  show ?thesis
    using ok regular S' m' slot' p' b by (simp add: run pe pl)
qed

text \<open>
  C8. On a variable that satisfies the data model, \<open>update_belief\<close> raises \<open>LinAlgError\<close>
  (the specification's NonInvertible) exactly when the summed precision is singular. In
  that case the store is left as it is at the raise: the variable's belief is already the
  sum, its \<open>mu\<close>, \<open>Sigma\<close> and prior are the old ones, no factor has changed (so every
  \<open>adj_beliefs\<close> slot keeps its old value), no other variable has changed, and the sweep
  \<open>update_all_beliefs\<close> stops at this variable with the same exception and store.
\<close>

theorem update_belief_singular:
  assumes ok: "variable_ok h v"
  shows "(snd (update_belief v h) = Some LinAlgError \<longleftrightarrow> det (rows (product_lam h v)) = 0)
    \<and> (det (rows (product_lam h v)) = 0 \<longrightarrow>
         belief (var_at (fst (update_belief v h)) v)
           = \<lparr>eta = product_eta h v, lam = product_lam h v\<rparr>
         \<and> mu (var_at (fst (update_belief v h)) v) = mu (var_at h v)
         \<and> Sigma (var_at (fst (update_belief v h)) v) = Sigma (var_at h v)
         \<and> prior (var_at (fst (update_belief v h)) v) = prior (var_at h v)
         \<and> factor_at (fst (update_belief v h)) = factor_at h
         \<and> (\<forall>u. u \<noteq> v \<longrightarrow> var_at (fst (update_belief v h)) u = var_at h u)
         \<and> (\<forall>vs. update_beliefs_loop (v # vs) h = update_belief v h))"
proof (cases "det (rows (product_lam h v)) = 0")
  case True
  show ?thesis
    using True by (simp add: update_belief_fails [OF ok True])
next
  case False
  from update_belief_succeeds [OF ok False] have "snd (update_belief v h) = None"
    by auto
  with False show ?thesis by simp
qed

theorem update_belief_singular_witness:
  "variable_ok singular_heap 0
   \<and> det (rows (product_lam singular_heap 0)) = 0
   \<and> snd (update_belief 0 singular_heap) = Some LinAlgError
   \<and> belief (var_at (fst (update_belief 0 singular_heap)) 0) = \<lparr>eta = [3], lam = Mat 1 [[0]]\<rparr>
   \<and> mu (var_at (fst (update_belief 0 singular_heap)) 0) = [7]
   \<and> Sigma (var_at (fst (update_belief 0 singular_heap)) 0) = Mat 1 [[9]]
   \<and> adj_beliefs (factor_at (fst (update_belief 0 singular_heap)) 0)
       = [\<lparr>eta = [5], lam = Mat 1 [[6]]\<rparr>]
   \<and> update_beliefs_loop [0, 1] singular_heap = update_belief 0 singular_heap"
proof -
  have ok: "variable_ok singular_heap 0"
    by (simp add: variable_ok_def edge_ok_def sized_def singular_heap_def variable0_def
        factor0_def first_index_def inbound_message_def nrows_def wf_mat_def)
  have pe: "product_eta singular_heap 0 = [3]"
    by (simp add: product_eta_def singular_heap_def variable0_def factor0_def first_index_def
        inbound_message_def)
  have pl: "product_lam singular_heap 0 = Mat 1 [[0]]"
    by (simp add: product_lam_def singular_heap_def variable0_def factor0_def first_index_def
        inbound_message_def nrows_def)
  have singular: "det (rows (product_lam singular_heap 0)) = 0"
    by (simp add: pl det_single)
  from update_belief_singular [OF ok] singular
  have e: "snd (update_belief 0 singular_heap) = Some LinAlgError"
    and b: "belief (var_at (fst (update_belief 0 singular_heap)) 0)
           = \<lparr>eta = product_eta singular_heap 0, lam = product_lam singular_heap 0\<rparr>"
    and m: "mu (var_at (fst (update_belief 0 singular_heap)) 0) = mu (var_at singular_heap 0)"
    and S: "Sigma (var_at (fst (update_belief 0 singular_heap)) 0) = Sigma (var_at singular_heap 0)"
    and f: "factor_at (fst (update_belief 0 singular_heap)) = factor_at singular_heap"
    and l: "\<forall>vs. update_beliefs_loop (0 # vs) singular_heap = update_belief 0 singular_heap"
    by simp_all
  have m': "mu (var_at (fst (update_belief 0 singular_heap)) 0) = [7]"
    unfolding m by (simp add: singular_heap_def variable0_def)
  have S': "Sigma (var_at (fst (update_belief 0 singular_heap)) 0) = Mat 1 [[9]]"
    unfolding S by (simp add: singular_heap_def variable0_def)
  have f': "adj_beliefs (factor_at (fst (update_belief 0 singular_heap)) 0)
       = [\<lparr>eta = [5], lam = Mat 1 [[6]]\<rparr>]"
    unfolding f by (simp add: singular_heap_def factor0_def)
  from l have l': "update_beliefs_loop [0, 1] singular_heap = update_belief 0 singular_heap"
    by blast
  from b have b': "belief (var_at (fst (update_belief 0 singular_heap)) 0)
       = \<lparr>eta = [3], lam = Mat 1 [[0]]\<rparr>"
    by (simp only: pe pl)
  show ?thesis
    by (intro conjI ok singular e b' m' S' f' l')
qed

lemma NdimGaussian_init_sized: "sized d (NdimGaussian_init d)"
  by (simp add: sized_def NdimGaussian_init_def zeros_vec_def zeros_def nrows_def wf_mat_def
      list_all_iff)

lemma first_index_less: "x \<in> set xs \<Longrightarrow> first_index xs x < length xs"
  by (induction xs) (auto simp: first_index_def)

lemma first_index_nth: "x \<in> set xs \<Longrightarrow> xs ! first_index xs x = x"
  by (induction xs) (auto simp: first_index_def)

lemma fresh_edge:
  assumes c: "as_constructed h f" and i: "vid \<in> set (adj_vIDs f)"
    and same: "list_all (\<lambda>u. variableID (var_at h u) = vid \<longrightarrow> dofs (var_at h u) = d)
                 (adj_var_nodes f)"
  shows "first_index (adj_vIDs f) vid < length (adj_var_nodes f)"
    and "messages f ! first_index (adj_vIDs f) vid = NdimGaussian_init d"
proof -
  let ?k = "first_index (adj_vIDs f) vid"
  from c have ids: "adj_vIDs f = map (\<lambda>u. variableID (var_at h u)) (adj_var_nodes f)"
    and ms: "messages f = map (\<lambda>u. NdimGaussian_init (dofs (var_at h u))) (adj_var_nodes f)"
    by (simp_all add: as_constructed_def)
  from i have k: "?k < length (adj_vIDs f)"
    by (rule first_index_less)
  then show k': "?k < length (adj_var_nodes f)" using ids by simp
  from i have "adj_vIDs f ! ?k = vid"
    by (rule first_index_nth)
  with ids k' have "variableID (var_at h (adj_var_nodes f ! ?k)) = vid" by simp
  moreover from k' have "adj_var_nodes f ! ?k \<in> set (adj_var_nodes f)" by simp
  ultimately have "dofs (var_at h (adj_var_nodes f ! ?k)) = d"
    using same by (auto simp: list_all_iff)
  with ms k' show "messages f ! ?k = NdimGaussian_init d" by simp
qed

lemma Factor_init_as_constructed:
  "as_constructed h (Factor_init h fid adj z s std mf jf l t)"
  by (simp add: as_constructed_def Factor_init_def Let_def)

lemma sum_list_all_zero: "(\<And>x. x \<in> set xs \<Longrightarrow> f x = (0::real)) \<Longrightarrow> (\<Sum>x\<leftarrow>xs. f x) = 0"
  by (induction xs) simp_all

lemma fresh_variable_ok:
  assumes prior: "sized (dofs (var_at h v)) (prior (var_at h v))"
    and fresh: "list_all (\<lambda>F. as_constructed h (factor_at h F)
                    \<and> variableID (var_at h v) \<in> set (adj_vIDs (factor_at h F)))
                  (adj_factors (var_at h v))"
    and ids: "list_all (\<lambda>F. list_all (\<lambda>u. variableID (var_at h u) = variableID (var_at h v)
                                      \<longrightarrow> dofs (var_at h u) = dofs (var_at h v))
                             (adj_var_nodes (factor_at h F)))
                (adj_factors (var_at h v))"
  shows "variable_ok h v" and "product_eta h v = eta (prior (var_at h v))"
    and "product_lam h v = lam (prior (var_at h v))"
proof -
  let ?vid = "variableID (var_at h v)" and ?d = "dofs (var_at h v)"
  have zero: "inbound_message h ?vid F = NdimGaussian_init ?d"
    and slot: "first_index (adj_vIDs (factor_at h F)) ?vid < length (adj_var_nodes (factor_at h F))"
    if "F \<in> set (adj_factors (var_at h v))" for F
    using fresh_edge [of h "factor_at h F" ?vid ?d] fresh ids that
    by (auto simp: list_all_iff inbound_message_def)
  show "variable_ok h v"
    using prior fresh zero slot
    by (auto simp: variable_ok_def list_all_iff edge_ok_def NdimGaussian_init_sized
        as_constructed_def)
  have "(\<Sum>F\<leftarrow>adj_factors (var_at h v). eta (inbound_message h ?vid F) ! k) = 0" if "k < ?d" for k
    using that by (intro sum_list_all_zero) (simp add: zero NdimGaussian_init_def zeros_vec_def)
  then show "product_eta h v = eta (prior (var_at h v))"
    using prior by (auto simp: product_eta_def sized_def intro!: nth_equalityI)
  have "(\<Sum>F\<leftarrow>adj_factors (var_at h v). rows (lam (inbound_message h ?vid F)) ! i ! j) = 0"
    if "i < ?d" "j < ?d" for i j
    using that by (intro sum_list_all_zero) (simp add: zero NdimGaussian_init_def zeros_def)
  then have "product_lam h v
      = Mat ?d (map (\<lambda>i. map (\<lambda>j. rows (lam (prior (var_at h v))) ! i ! j) [0..<?d]) [0..<?d])"
    using prior by (simp add: product_lam_def sized_def)
  also have "\<dots> = lam (prior (var_at h v))"
    using prior mat_entries [of "lam (prior (var_at h v))" ?d ?d] by (simp add: sized_def)
  finally show "product_lam h v = lam (prior (var_at h v))" .
qed

text \<open>
  C10. \<open>Factor.__init__\<close> makes every message the zero Gaussian of its variable's size.
  Hence, when every factor adjacent to a variable still has the \<open>adj_vIDs\<close> and \<open>messages\<close>
  of its construction (and variables of equal id have equal \<open>dofs\<close>, as ids are unique),
  \<open>update_belief\<close> sets the variable's belief to its prior; it raises \<open>LinAlgError\<close> if the
  prior's \<open>lam\<close> is singular and returns normally otherwise.
\<close>

theorem update_belief_before_messages:
  assumes prior: "sized (dofs (var_at h v)) (prior (var_at h v))"
    and fresh: "list_all (\<lambda>F. as_constructed h (factor_at h F)
                    \<and> variableID (var_at h v) \<in> set (adj_vIDs (factor_at h F)))
                  (adj_factors (var_at h v))"
    and ids: "list_all (\<lambda>F. list_all (\<lambda>u. variableID (var_at h u) = variableID (var_at h v)
                                      \<longrightarrow> dofs (var_at h u) = dofs (var_at h v))
                             (adj_var_nodes (factor_at h F)))
                (adj_factors (var_at h v))"
  shows "messages (Factor_init h0 fid adj z s std mf jf l t)
           = map (\<lambda>u. \<lparr>eta = replicate (dofs (var_at h0 u)) 0,
                        lam = Mat (dofs (var_at h0 u))
                                (replicate (dofs (var_at h0 u)) (replicate (dofs (var_at h0 u)) 0))\<rparr>)
               adj
         \<and> as_constructed h0 (Factor_init h0 fid adj z s std mf jf l t)
         \<and> belief (var_at (fst (update_belief v h)) v) = prior (var_at h v)
         \<and> snd (update_belief v h)
             = (if det (rows (lam (prior (var_at h v)))) = 0 then Some LinAlgError else None)"
proof -
  note f = fresh_variable_ok [OF prior fresh ids]
  have run: "belief (var_at (fst (update_belief v h)) v) = prior (var_at h v)
         \<and> snd (update_belief v h)
             = (if det (rows (lam (prior (var_at h v)))) = 0 then Some LinAlgError else None)"
  proof (cases "det (rows (product_lam h v)) = 0")
    case True
    show ?thesis
      using True by (simp add: update_belief_fails [OF f(1) True]) (simp add: f)
  next
    case False
    from update_belief_succeeds [OF f(1) False] show ?thesis
      using False by (auto simp: f)
  qed
  show ?thesis
    using run
    by (simp add: Factor_init_as_constructed)
       (simp add: Factor_init_def Let_def NdimGaussian_init_def zeros_vec_def zeros_def)
qed

theorem update_belief_before_messages_witness:
  "sized (dofs (var_at fresh_heap 0)) (prior (var_at fresh_heap 0))
   \<and> list_all (\<lambda>F. as_constructed fresh_heap (factor_at fresh_heap F)
                 \<and> variableID (var_at fresh_heap 0) \<in> set (adj_vIDs (factor_at fresh_heap F)))
        (adj_factors (var_at fresh_heap 0))
   \<and> messages (factor_at fresh_heap 0) = [\<lparr>eta = [0], lam = Mat 1 [[0]]\<rparr>]
   \<and> belief (var_at (fst (update_belief 0 fresh_heap)) 0) = \<lparr>eta = [1], lam = Mat 1 [[2]]\<rparr>
   \<and> snd (update_belief 0 fresh_heap) = None"
proof -
  have v: "var_at fresh_heap 0
      = (VariableNode_init 0 1)\<lparr>adj_factors := [0], prior := \<lparr>eta = [1], lam = Mat 1 [[2]]\<rparr>\<rparr>"
    by (simp add: fresh_heap_def fresh_vars_def)
  have f: "factor_at fresh_heap F
      = Factor_init fresh_heap 0 [0] (Scalar 0) (Scalar 1) 1 (\<lambda>x. Scalar 0) (\<lambda>x. Jrow [0]) None 2"
    for F
    by (simp add: fresh_heap_def fresh_vars_def Factor_init_def Let_def)
  have prior: "sized (dofs (var_at fresh_heap 0)) (prior (var_at fresh_heap 0))"
    by (simp add: v VariableNode_init_def sized_def nrows_def wf_mat_def)
  have fresh: "list_all (\<lambda>F. as_constructed fresh_heap (factor_at fresh_heap F)
                 \<and> variableID (var_at fresh_heap 0) \<in> set (adj_vIDs (factor_at fresh_heap F)))
        (adj_factors (var_at fresh_heap 0))"
    unfolding f by (simp add: Factor_init_as_constructed) (simp add: v Factor_init_def Let_def)
  have ids: "list_all (\<lambda>F. list_all (\<lambda>u. variableID (var_at fresh_heap u)
                                          = variableID (var_at fresh_heap 0)
                                      \<longrightarrow> dofs (var_at fresh_heap u) = dofs (var_at fresh_heap 0))
                             (adj_var_nodes (factor_at fresh_heap F)))
                (adj_factors (var_at fresh_heap 0))"
    by (simp add: list_all_iff fresh_heap_def fresh_vars_def)
  have m: "messages (factor_at fresh_heap 0) = [\<lparr>eta = [0], lam = Mat 1 [[0]]\<rparr>]"
    using update_belief_before_messages [OF prior fresh ids,
        of fresh_heap 0 "[0]" "Scalar 0" "Scalar 1" 1 "\<lambda>x. Scalar 0" "\<lambda>x. Jrow [0]" None 2]
    by (simp add: v VariableNode_init_def det_single f)
  have b: "belief (var_at (fst (update_belief 0 fresh_heap)) 0) = \<lparr>eta = [1], lam = Mat 1 [[2]]\<rparr>"
    and e: "snd (update_belief 0 fresh_heap) = None"
    using update_belief_before_messages [OF prior fresh ids]
    by (simp_all add: v det_single)
  show ?thesis
    by (intro conjI prior fresh m b e)
qed

section \<open>Robust reweighting\<close>

lemma huber_var_pos:
  fixes s t d :: real
  assumes "0 < s" "0 < t" "t < d"
  shows "0 < s * d ^ 2 / (2 * (t * d - 0.5 * t ^ 2))"
proof -
  have e: "t * d - 0.5 * t ^ 2 = t * (d - t / 2)"
    by (simp add: power2_eq_square algebra_simps)
  have "0 < t * (d - t / 2)" using assms by (intro mult_pos_pos) auto
  moreover have "0 < s * d ^ 2" using assms by (intro mult_pos_pos) auto
  ultimately show ?thesis unfolding e by simp
qed

text \<open>
  Where the means of the adjacent beliefs can be computed, the Huber branch of
  \<open>robustify_loss\<close> sets the adaptive variance to \<open>sigma^2 d^2 / (2 (tau d - tau^2 / 2))\<close> when
  the Mahalanobis distance \<open>d = |z - h(linpoint)| / sigma\<close> exceeds the threshold \<open>tau\<close> and
  to \<open>sigma^2\<close> otherwise, and multiplies \<open>eta\<close> and \<open>lam\<close> of the stored factor by the old
  adaptive variance over the new one. Nothing else changes but \<open>robust_flag\<close>: the
  linearisation point and the measurement and Jacobian functions are those of before. The
  nominal variance and the threshold are positive, so that no division is by zero.
\<close>

theorem robustify_loss_huber:
  assumes "loss f = Some ''huber''"
    and "belief_means [] (adj_beliefs f) = Inr means"
    and "nd_sub (measurement f) (meas_fn f (linpoint f)) = Inr r"
    and "0 < gauss_noise_var f" and "0 < mahalanobis_threshold f"
  shows "let d = nd_norm r / sqrt (gauss_noise_var f);
             v = (if d > mahalanobis_threshold f
                  then gauss_noise_var f * d ^ 2 /
                         (2 * (mahalanobis_threshold f * d - 0.5 * mahalanobis_threshold f ^ 2))
                  else gauss_noise_var f);
             c = adaptive_gauss_noise_var f / v
         in robustify_loss f =
              Inr (f\<lparr>adaptive_gauss_noise_var := v,
                     robust_flag := (d > mahalanobis_threshold f),
                     factor := \<lparr>eta = map (\<lambda>x. x * c) (eta (factor f)),
                                lam = Mat (ncols (lam (factor f)))
                                        (map (map (\<lambda>x. x * c)) (rows (lam (factor f))))\<rparr>\<rparr>)"
  using assms
  by (simp add: robustify_loss_def Let_def rescale_factor_def vscale_def mscale_def)

theorem robustify_loss_huber_witness:
  "loss huber_factor = Some ''huber''
   \<and> belief_means [] (adj_beliefs huber_factor) = Inr [0]
   \<and> nd_sub (measurement huber_factor) (meas_fn huber_factor (linpoint huber_factor))
       = Inr (Scalar 10)
   \<and> 0 < gauss_noise_var huber_factor \<and> 0 < mahalanobis_threshold huber_factor
   \<and> robustify_loss huber_factor =
       Inr (huber_factor\<lparr>adaptive_gauss_noise_var := 25 / 9, robust_flag := True,
              factor := \<lparr>eta = [18 / 5], lam = Mat 1 [[9 / 25]]\<rparr>\<rparr>)"
  using robustify_loss_huber [of huber_factor "[0]" "Scalar 10"]
  by (simp add: huber_factor_def factor0_def inv_single matvec_def dot_def vnorm_single Let_def)

text \<open>
  C4. For every factor with the Huber loss, \<open>robustify_loss\<close> is to set the adaptive variance
  from the Mahalanobis distance and rescale the stored factor. The method, however, first
  gathers the means of the adjacent beliefs into \<open>adj_belief_means\<close>, a value it never reads
  afterwards, and \<open>np.linalg.inv\<close> raises on a belief whose \<open>lam\<close> is singular. On a Huber
  factor as \<open>Factor.__init__\<close> leaves it, with measurement 10, prediction 0, variance 1 and
  threshold 2, the distance is 10 and the adaptive variance should become \<open>25 / 9\<close>; the call
  raises \<open>LinAlgError\<close> instead and nothing is set.
\<close>

theorem robustify_loss_raises_on_fresh_factor:
  "loss fresh_huber_factor = Some ''huber''
   \<and> adj_beliefs fresh_huber_factor = [\<lparr>eta = [0], lam = Mat 1 [[0]]\<rparr>]
   \<and> gauss_noise_var fresh_huber_factor = 1
   \<and> mahalanobis_threshold fresh_huber_factor = 2
   \<and> nd_sub (measurement fresh_huber_factor)
        (meas_fn fresh_huber_factor (linpoint fresh_huber_factor)) = Inr (Scalar 10)
   \<and> robustify_loss fresh_huber_factor = Inl LinAlgError"
  by (simp add: fresh_huber_factor_def Factor_init_def fresh_vars_def VariableNode_init_def
      NdimGaussian_init_def zeros_vec_def zeros_def robustify_loss_def Let_def
      np_linalg_inv_def nrows_def det_single)

text \<open>What any returning call does to the stored factor and to the adaptive variance.\<close>

lemma robustify_loss_factor:
  assumes "robustify_loss f = Inr f'"
  shows "factor f' =
           \<lparr>eta = vscale (adaptive_gauss_noise_var f / adaptive_gauss_noise_var f') (eta (factor f)),
            lam = mscale (adaptive_gauss_noise_var f / adaptive_gauss_noise_var f') (lam (factor f))\<rparr>"
  using assms
  by (auto simp: robustify_loss_def Let_def rescale_factor_def
      split: option.splits sum.splits if_splits)

lemma robustify_loss_positive:
  assumes run: "robustify_loss f = Inr f'"
    and pos: "0 < gauss_noise_var f" "0 < mahalanobis_threshold f" "0 < adaptive_gauss_noise_var f"
  shows "0 < adaptive_gauss_noise_var f'"
proof (cases "loss f")
  case None
  with run pos show ?thesis
    by (auto simp: robustify_loss_def rescale_factor_def Let_def)
next
  case (Some l)
  with run obtain m where m: "belief_means [] (adj_beliefs f) = Inr m"
    by (auto simp: robustify_loss_def Let_def split: sum.splits)
  show ?thesis
  proof (cases "l = ''huber'' \<or> l = ''constant''")
    case False
    with run Some m pos show ?thesis
      by (auto simp: robustify_loss_def rescale_factor_def Let_def)
  next
    case True
    with run Some m obtain r where r: "nd_sub (measurement f) (meas_fn f (linpoint f)) = Inr r"
      by (auto simp: robustify_loss_def Let_def split: sum.splits if_splits)
    define d where "d = nd_norm r / sqrt (gauss_noise_var f)"
    define v where "v = gauss_noise_var f * d ^ 2 /
      (2 * (mahalanobis_threshold f * d - 0.5 * mahalanobis_threshold f ^ 2))"
    show ?thesis
    proof (cases "d > mahalanobis_threshold f")
      case False
      with run Some m r True pos show ?thesis
        by (auto simp: robustify_loss_def rescale_factor_def Let_def d_def)
    next
      case fires: True
      then have "0 < d" using pos by simp
      then have d2: "0 < d ^ 2" by simp
      have "0 < v" unfolding v_def using pos fires by (intro huber_var_pos) auto
      moreover have "adaptive_gauss_noise_var f' = v \<or> adaptive_gauss_noise_var f' = d ^ 2"
        using run Some m r True fires
        by (auto simp: robustify_loss_def rescale_factor_def Let_def d_def v_def)
      ultimately show ?thesis using d2 by auto
    qed
  qed
qed

lemma robustify_huber_factor:
  "robustify_loss huber_factor =
     Inr (huber_factor\<lparr>adaptive_gauss_noise_var := 25 / 9, robust_flag := True,
            factor := \<lparr>eta = [18 / 5], lam = Mat 1 [[9 / 25]]\<rparr>\<rparr>)"
  by (simp add: robustify_loss_def huber_factor_def factor0_def inv_single matvec_def dot_def
      vnorm_single Let_def rescale_factor_def vscale_def mscale_def)

lemma robustify_reverting_factor:
  "robustify_loss reverting_factor =
     Inr (reverting_factor\<lparr>adaptive_gauss_noise_var := 1,
            factor := \<lparr>eta = [10], lam = Mat 1 [[1]]\<rparr>\<rparr>)"
  by (simp add: robustify_loss_def reverting_factor_def huber_factor_def factor0_def
      Let_def rescale_factor_def vscale_def mscale_def)

text \<open>
  C5, as the code has it. Take a factor whose adaptive variance is its nominal variance
  (as at construction), both positive, with a positive threshold. Call \<open>robustify_loss\<close>;
  then let \<open>robustify_loss\<close> run again on a factor with the stored factor and the variances
  the first call left, in a state where the loss does not fire, so that the adaptive
  variance returns to the nominal one. The stored factor \<open>(eta, lam)\<close> is then exactly the
  one before the first call. (Arithmetic is exact here; the rounding of floats is not
  modelled.)
\<close>

theorem robustify_loss_round_trip:
  assumes nominal: "adaptive_gauss_noise_var f = gauss_noise_var f"
    and pos: "0 < gauss_noise_var f" "0 < mahalanobis_threshold f"
    and first: "robustify_loss f = Inr f1"
    and same: "factor f2 = factor f1" "adaptive_gauss_noise_var f2 = adaptive_gauss_noise_var f1"
      "gauss_noise_var f2 = gauss_noise_var f"
    and second: "robustify_loss f2 = Inr f3"
    and reverted: "adaptive_gauss_noise_var f3 = gauss_noise_var f2"
  shows "factor f3 = factor f"
proof -
  let ?s = "gauss_noise_var f" and ?v = "adaptive_gauss_noise_var f1"
  have v: "0 < ?v" using robustify_loss_positive [OF first pos] nominal pos by simp
  have one: "(?s / ?v) * (?v / ?s) = 1" using v pos by simp
  have f1: "factor f1 =
      \<lparr>eta = vscale (?s / ?v) (eta (factor f)), lam = mscale (?s / ?v) (lam (factor f))\<rparr>"
    using robustify_loss_factor [OF first] nominal by simp
  have f3: "factor f3 =
      \<lparr>eta = vscale (?v / ?s) (eta (factor f1)), lam = mscale (?v / ?s) (lam (factor f1))\<rparr>"
    using robustify_loss_factor [OF second] same reverted by simp
  show ?thesis
    unfolding f3 f1 by (simp add: vscale_vscale [OF one] mscale_mscale [OF one])
qed

theorem robustify_loss_round_trip_witness:
  "adaptive_gauss_noise_var huber_factor = gauss_noise_var huber_factor
   \<and> 0 < gauss_noise_var huber_factor \<and> 0 < mahalanobis_threshold huber_factor
   \<and> robustify_loss huber_factor =
       Inr (huber_factor\<lparr>adaptive_gauss_noise_var := 25 / 9, robust_flag := True,
              factor := \<lparr>eta = [18 / 5], lam = Mat 1 [[9 / 25]]\<rparr>\<rparr>)
   \<and> robustify_loss reverting_factor =
       Inr (reverting_factor\<lparr>adaptive_gauss_noise_var := 1,
              factor := \<lparr>eta = [10], lam = Mat 1 [[1]]\<rparr>\<rparr>)
   \<and> factor (reverting_factor\<lparr>adaptive_gauss_noise_var := 1,
              factor := \<lparr>eta = [10], lam = Mat 1 [[1]]\<rparr>\<rparr>) = factor huber_factor"
  using robustify_loss_round_trip
      [OF _ _ _ robustify_huber_factor _ _ _ robustify_reverting_factor]
    robustify_huber_factor robustify_reverting_factor
  by (simp add: reverting_factor_def huber_factor_def factor0_def)

text \<open>
  C5 as stated, for every factor, fails on a factor that is not at its nominal variance
  when \<open>robustify_loss\<close> is called: the example has nominal variance 1 and adaptive variance
  4. The call (no loss) sets the adaptive variance to 1 and multiplies the stored factor by
  4; the adaptive variance is then the nominal one, a further call changes nothing, and the
  stored factor is four times the one before the first call.
\<close>

theorem robustify_loss_round_trip_counterexample:
  "robustify_loss reweighted_factor =
     Inr (reweighted_factor\<lparr>adaptive_gauss_noise_var := 1,
            factor := \<lparr>eta = [4], lam = Mat 1 [[4]]\<rparr>\<rparr>)
   \<and> robustify_loss (reweighted_factor\<lparr>adaptive_gauss_noise_var := 1,
            factor := \<lparr>eta = [4], lam = Mat 1 [[4]]\<rparr>\<rparr>) =
     Inr (reweighted_factor\<lparr>adaptive_gauss_noise_var := 1,
            factor := \<lparr>eta = [4], lam = Mat 1 [[4]]\<rparr>\<rparr>)
   \<and> adaptive_gauss_noise_var (reweighted_factor\<lparr>adaptive_gauss_noise_var := 1,
            factor := \<lparr>eta = [4], lam = Mat 1 [[4]]\<rparr>\<rparr>) = gauss_noise_var reweighted_factor
   \<and> factor (reweighted_factor\<lparr>adaptive_gauss_noise_var := 1,
            factor := \<lparr>eta = [4], lam = Mat 1 [[4]]\<rparr>\<rparr>) \<noteq> factor reweighted_factor"
  by (simp add: robustify_loss_def reweighted_factor_def factor0_def
      Let_def rescale_factor_def vscale_def mscale_def)

section \<open>Relinearisation\<close>

lemma relinearise_factor_cases:
  assumes "relinearise_factor g f = Inr f'"
  shows "if relin_due g f
         then \<exists>x_now f1 returned.
                belief_means [] (adj_beliefs f) = Inr x_now
                \<and> compute_factor f (Some x_now) True = Inr (f1, returned)
                \<and> f' = f1\<lparr>iters_since_relin := 0, eta_damping := 0\<rparr>
         else f' = f\<lparr>iters_since_relin := iters_since_relin f + 1\<rparr>"
  using assms
  by (auto simp: relinearise_factor_def relin_due_def split: sum.splits if_splits)

lemma compute_factor_keeps_counter:
  assumes "compute_factor f x u = Inr (f1, returned)"
  shows "iters_since_relin f1 = iters_since_relin f"
  using assms
  by (auto simp: compute_factor_def Let_def split: sum.splits nd.splits jac.splits if_splits option.splits)

lemma relinearise_factor_counter:
  assumes "relinearise_factor g f = Inr f'"
  shows "iters_since_relin f' = (if relin_due g f then 0 else iters_since_relin f + 1)"
  using relinearise_factor_cases [OF assms]
  by (auto split: if_splits)

lemma relinearise_loop_result:
  assumes "distinct fs" "relinearise_loop g fs h = Inr h'"
  shows "var_at h' = var_at h"
    and "\<And>F. F \<notin> set fs \<Longrightarrow> factor_at h' F = factor_at h F"
    and "\<And>F. F \<in> set fs \<Longrightarrow> relinearise_factor g (factor_at h F) = Inr (factor_at h' F)"
  using assms
proof (induction fs arbitrary: h)
  case Nil
  { case 1 then show ?case by simp }
  { case 2 then show ?case by simp }
  { case 3 then show ?case by simp }
next
  case (Cons r rs)
  { case 1
    then obtain f' where f': "relinearise_factor g (factor_at h r) = Inr f'"
      and rest: "relinearise_loop g rs (h\<lparr>factor_at := (factor_at h) (r := f')\<rparr>) = Inr h'"
      by (auto split: sum.splits)
    from Cons.IH(1) [OF _ rest] 1 show ?case by simp }
  { case (2 F)
    then obtain f' where f': "relinearise_factor g (factor_at h r) = Inr f'"
      and rest: "relinearise_loop g rs (h\<lparr>factor_at := (factor_at h) (r := f')\<rparr>) = Inr h'"
      by (auto split: sum.splits)
    from Cons.IH(2) [OF _ _ rest, of F] 2 show ?case by simp }
  { case (3 F)
    then obtain f' where f': "relinearise_factor g (factor_at h r) = Inr f'"
      and rest: "relinearise_loop g rs (h\<lparr>factor_at := (factor_at h) (r := f')\<rparr>) = Inr h'"
      by (auto split: sum.splits)
    show ?case
    proof (cases "F = r")
      case True
      with 3 have "F \<notin> set rs" by simp
      from Cons.IH(2) [OF this _ rest] 3 have "factor_at h' F = f'" using True by simp
      with f' True show ?thesis by simp
    next
      case False
      with 3 have "F \<in> set rs" by simp
      from Cons.IH(3) [OF this _ rest] 3 False show ?thesis by simp
    qed }
qed

lemma relinearise_loop_returns:
  assumes "distinct fs" "list_all (\<lambda>F. \<not> isl (relinearise_factor g (factor_at h F))) fs"
  shows "\<exists>h'. relinearise_loop g fs h = Inr h'"
  using assms
proof (induction fs arbitrary: h)
  case Nil
  then show ?case by simp
next
  case (Cons r rs)
  then obtain f' where f': "relinearise_factor g (factor_at h r) = Inr f'"
    by (cases "relinearise_factor g (factor_at h r)") auto
  let ?h1 = "h\<lparr>factor_at := (factor_at h) (r := f')\<rparr>"
  have "list_all (\<lambda>F. \<not> isl (relinearise_factor g (factor_at ?h1 F))) rs"
    using Cons.prems by (auto simp: list_all_iff)
  with Cons.IH [of ?h1] Cons.prems obtain h' where "relinearise_loop g rs ?h1 = Inr h'"
    by auto
  with f' show ?case by simp
qed

lemma relin_trace_first:
  assumes "relin_trace g changes f = Inr bs"
    and "list_all (\<lambda>c. \<forall>x. iters_since_relin (c x) = iters_since_relin x) changes"
    and "0 \<le> iters_since_relin f" and "k < length bs" and "bs ! k"
  shows "min_linear_iters g \<le> iters_since_relin f + int k"
  using assms
proof (induction changes arbitrary: f bs k)
  case Nil
  then show ?case by simp
next
  case (Cons c cs)
  from Cons.prems(1) obtain f' bs' where step: "relinearise_factor g (c f) = Inr f'"
    and rest: "relin_trace g cs f' = Inr bs'" and bs: "bs = relin_due g (c f) # bs'"
    by (auto split: sum.splits)
  from Cons.prems(2) have keep: "iters_since_relin (c f) = iters_since_relin f"
    and keeps: "list_all (\<lambda>c. \<forall>x. iters_since_relin (c x) = iters_since_relin x) cs"
    by simp_all
  have next_counter: "0 \<le> iters_since_relin f'" "iters_since_relin f' \<le> iters_since_relin f + 1"
    using relinearise_factor_counter [OF step] keep Cons.prems(3) by (auto split: if_splits)
  show ?case
  proof (cases k)
    case 0
    with Cons.prems(5) bs have "relin_due g (c f)" by simp
    then have "min_linear_iters g \<le> iters_since_relin (c f)"
      by (auto simp: relin_due_def split: sum.splits)
    with keep 0 show ?thesis by simp
  next
    case (Suc k')
    with Cons.prems(4,5) bs have "k' < length bs'" "bs' ! k'" by simp_all
    from Cons.IH [OF rest keeps next_counter(1) this] next_counter(2) Suc show ?thesis by simp
  qed
qed

lemma relin_trace_gap:
  assumes "relin_trace g changes f = Inr bs"
    and "list_all (\<lambda>c. \<forall>x. iters_since_relin (c x) = iters_since_relin x) changes"
    and "i < j" and "j < length bs" and "bs ! i" and "bs ! j"
  shows "min_linear_iters g < int j - int i"
  using assms
proof (induction changes arbitrary: f bs i j)
  case Nil
  then show ?case by simp
next
  case (Cons c cs)
  from Cons.prems(1) obtain f' bs' where step: "relinearise_factor g (c f) = Inr f'"
    and rest: "relin_trace g cs f' = Inr bs'" and bs: "bs = relin_due g (c f) # bs'"
    by (auto split: sum.splits)
  from Cons.prems(2)
  have keeps: "list_all (\<lambda>c. \<forall>x. iters_since_relin (c x) = iters_since_relin x) cs"
    by simp
  from Cons.prems(3) obtain j' where j: "j = Suc j'" by (cases j) auto
  with Cons.prems(4,6) bs have j': "j' < length bs'" "bs' ! j'" by simp_all
  show ?case
  proof (cases i)
    case 0
    with Cons.prems(5) bs have "relin_due g (c f)" by simp
    with relinearise_factor_counter [OF step] have "iters_since_relin f' = 0" by simp
    with relin_trace_first [OF rest keeps _ j'] have "min_linear_iters g \<le> int j'" by simp
    with 0 j show ?thesis by simp
  next
    case (Suc i')
    with Cons.prems(3,5) bs j have "i' < j'" "bs' ! i'" by simp_all
    from Cons.IH [OF rest keeps this(1) j'(1) this(2) j'(2)] Suc j show ?thesis by simp
  qed
qed

text \<open>
  C6, as the code has it. When the graph's \<open>nonlinear_factors\<close> flag is set (the method does
  nothing otherwise), the factors of the graph are distinct objects and the body of the
  loop raises for none of them, \<open>relinearise_factors\<close> returns, variables and factors
  outside the graph's list are unchanged, and for every factor \<open>F\<close> of the list: if the
  drift \<open>|F.linpoint - x_now|\<close> exceeds \<open>beta\<close> and \<open>F.iters_since_relin\<close> has reached
  \<open>min_linear_iters\<close>, then \<open>F\<close> is what \<open>compute_factor\<close> at \<open>x_now\<close> makes of it, with
  \<open>iters_since_relin\<close> and \<open>eta_damping\<close> set to 0; otherwise \<open>F\<close> is unchanged but for
  \<open>iters_since_relin\<close>, which is one more. Consequently, over successive calls on a factor
  whose counter nothing else writes, two calls that relinearise it lie more than
  \<open>min_linear_iters\<close> calls apart, whatever the drift.
\<close>

theorem relinearise_factors_policy:
  assumes nonlinear: "nonlinear_factors g"
    and factors: "distinct (factors g)"
      "list_all (\<lambda>F. \<not> isl (relinearise_factor g (factor_at h F))) (factors g)"
  shows "(\<exists>h'. relinearise_factors g h = Inr h'
           \<and> var_at h' = var_at h
           \<and> (\<forall>F. F \<notin> set (factors g) \<longrightarrow> factor_at h' F = factor_at h F)
           \<and> (\<forall>F \<in> set (factors g).
                 if relin_due g (factor_at h F)
                 then \<exists>x_now f1 returned.
                        belief_means [] (adj_beliefs (factor_at h F)) = Inr x_now
                        \<and> compute_factor (factor_at h F) (Some x_now) True = Inr (f1, returned)
                        \<and> factor_at h' F = f1\<lparr>iters_since_relin := 0, eta_damping := 0\<rparr>
                 else factor_at h' F
                        = (factor_at h F)\<lparr>iters_since_relin :=
                                             iters_since_relin (factor_at h F) + 1\<rparr>))
       \<and> (\<forall>changes f bs i j.
             relin_trace g changes f = Inr bs
             \<and> list_all (\<lambda>c. \<forall>x. iters_since_relin (c x) = iters_since_relin x) changes
             \<and> i < j \<and> j < length bs \<and> bs ! i \<and> bs ! j
             \<longrightarrow> min_linear_iters g < int j - int i)"
proof -
  from relinearise_loop_returns [OF factors] obtain h' where
    run: "relinearise_loop g (factors g) h = Inr h'" by blast
  note r = relinearise_loop_result [OF factors(1) run]
  have "relinearise_factors g h = Inr h'"
    using nonlinear run by (simp add: relinearise_factors_def)
  moreover have "\<forall>F \<in> set (factors g).
                 if relin_due g (factor_at h F)
                 then \<exists>x_now f1 returned.
                        belief_means [] (adj_beliefs (factor_at h F)) = Inr x_now
                        \<and> compute_factor (factor_at h F) (Some x_now) True = Inr (f1, returned)
                        \<and> factor_at h' F = f1\<lparr>iters_since_relin := 0, eta_damping := 0\<rparr>
                 else factor_at h' F
                        = (factor_at h F)\<lparr>iters_since_relin :=
                                             iters_since_relin (factor_at h F) + 1\<rparr>"
    using relinearise_factor_cases [OF r(3)] by blast
  ultimately show ?thesis
    using r(1,2) relin_trace_gap by blast
qed

lemma drifting_factor_due: "relin_due relin_graph drifting_factor"
  by (simp add: relin_due_def relin_graph_def graph0_def drifting_factor_def factor0_def
      inv_single matvec_def dot_def vnorm_single)

lemma drifting_factor_linearised:
  "compute_factor drifting_factor (Some [1]) True =
     Inr (drifting_factor\<lparr>linpoint := [1], factor := \<lparr>eta = [2], lam = Mat 1 [[1]]\<rparr>\<rparr>,
          ([2], Mat 1 [[1]]))"
  by (simp add: compute_factor_def drifting_factor_def factor0_def Let_def dot_def outer_def
      mscale_def vscale_def gaussian_overwrite)

lemma drifting_factor_step:
  "relinearise_factor relin_graph drifting_factor =
     Inr (drifting_factor\<lparr>linpoint := [1], factor := \<lparr>eta = [2], lam = Mat 1 [[1]]\<rparr>,
            iters_since_relin := 0, eta_damping := 0\<rparr>)"
proof -
  have "belief_means [] (adj_beliefs drifting_factor) = Inr [1]"
    by (simp add: drifting_factor_def factor0_def inv_single matvec_def dot_def)
  moreover have "nd_sub (Vec (linpoint drifting_factor)) (Vec [1]) = Inr (Vec [- 1])"
    by (simp add: drifting_factor_def factor0_def)
  moreover have "beta relin_graph < nd_norm (Vec [- 1])"
    "min_linear_iters relin_graph \<le> iters_since_relin drifting_factor"
    by (simp_all add: relin_graph_def graph0_def drifting_factor_def vnorm_single)
  ultimately show ?thesis
    by (simp add: relinearise_factor_def drifting_factor_linearised)
qed

lemma drift_trace:
  "relin_trace relin_graph [drift, drift, drift, drift, drift, drift, drift]
     (drifting_factor\<lparr>iters_since_relin := 1\<rparr>)
   = Inr [False, False, True, False, False, False, True]"
  by (simp add: relinearise_factor_def relin_due_def compute_factor_def drift_def
      relin_graph_def graph0_def drifting_factor_def factor0_def Let_def inv_single matvec_def
      dot_def vnorm_single outer_def mscale_def vscale_def gaussian_overwrite)

theorem relinearise_factors_policy_witness:
  "nonlinear_factors relin_graph \<and> distinct (factors relin_graph)
   \<and> list_all (\<lambda>F. \<not> isl (relinearise_factor relin_graph (factor_at relin_heap F)))
        (factors relin_graph)
   \<and> relin_due relin_graph (factor_at relin_heap 0)
   \<and> (\<exists>h'. relinearise_factors relin_graph relin_heap = Inr h'
          \<and> factor_at h' 0
              = drifting_factor\<lparr>linpoint := [1], factor := \<lparr>eta = [2], lam = Mat 1 [[1]]\<rparr>,
                  iters_since_relin := 0, eta_damping := 0\<rparr>)
   \<and> relin_trace relin_graph [drift, drift, drift, drift, drift, drift, drift]
        (drifting_factor\<lparr>iters_since_relin := 1\<rparr>)
       = Inr [False, False, True, False, False, False, True]
   \<and> min_linear_iters relin_graph < int 6 - int 2"
proof -
  have f: "factor_at relin_heap F = drifting_factor" for F
    by (simp add: relin_heap_def)
  have n: "nonlinear_factors relin_graph" and d: "distinct (factors relin_graph)"
    by (simp_all add: relin_graph_def graph0_def)
  have ok: "list_all (\<lambda>F. \<not> isl (relinearise_factor relin_graph (factor_at relin_heap F)))
        (factors relin_graph)"
    by (simp add: f drifting_factor_step) (simp add: relin_graph_def graph0_def)
  have due: "relin_due relin_graph (factor_at relin_heap 0)"
    by (simp add: f drifting_factor_due)
  have keeps: "list_all (\<lambda>c. \<forall>x. iters_since_relin (c x) = iters_since_relin x)
      [drift, drift, drift, drift, drift, drift, drift]"
    by (simp add: drift_def)
  note policy = relinearise_factors_policy [OF n d ok]
  from policy obtain h' where run: "relinearise_factors relin_graph relin_heap = Inr h'"
    and each: "\<forall>F \<in> set (factors relin_graph).
                 if relin_due relin_graph (factor_at relin_heap F)
                 then \<exists>x_now f1 returned.
                        belief_means [] (adj_beliefs (factor_at relin_heap F)) = Inr x_now
                        \<and> compute_factor (factor_at relin_heap F) (Some x_now) True
                            = Inr (f1, returned)
                        \<and> factor_at h' F = f1\<lparr>iters_since_relin := 0, eta_damping := 0\<rparr>
                 else factor_at h' F
                        = (factor_at relin_heap F)\<lparr>iters_since_relin :=
                             iters_since_relin (factor_at relin_heap F) + 1\<rparr>"
    by blast
  have "0 \<in> set (factors relin_graph)" by (simp add: relin_graph_def graph0_def)
  with each due obtain x_now f1 returned where
    x: "belief_means [] (adj_beliefs drifting_factor) = Inr x_now"
    and c: "compute_factor drifting_factor (Some x_now) True = Inr (f1, returned)"
    and r: "factor_at h' 0 = f1\<lparr>iters_since_relin := 0, eta_damping := 0\<rparr>"
    unfolding f by (metis (no_types, lifting))
  from x have "x_now = [1]"
    by (simp add: drifting_factor_def factor0_def inv_single matvec_def dot_def)
  with c have "f1 = drifting_factor\<lparr>linpoint := [1], factor := \<lparr>eta = [2], lam = Mat 1 [[1]]\<rparr>\<rparr>"
    by (simp add: drifting_factor_linearised)
  with r run have result: "\<exists>h'. relinearise_factors relin_graph relin_heap = Inr h'
          \<and> factor_at h' 0
              = drifting_factor\<lparr>linpoint := [1], factor := \<lparr>eta = [2], lam = Mat 1 [[1]]\<rparr>,
                  iters_since_relin := 0, eta_damping := 0\<rparr>"
    by simp
  from policy drift_trace keeps
  have gap: "min_linear_iters relin_graph < int 6 - int 2"
    by (elim conjE allE [of _ "[drift, drift, drift, drift, drift, drift, drift]"]
          allE [of _ "drifting_factor\<lparr>iters_since_relin := 1\<rparr>"]
          allE [of _ "[False, False, True, False, False, False, True]"]
          allE [of _ "2::nat"] allE [of _ "6::nat"]) simp
  show ?thesis
    by (intro conjI n d ok due result drift_trace gap)
qed

text \<open>
  C6 as stated, without the flag: in a graph built with \<open>nonlinear_factors = False\<close> the
  condition holds for the example factor (drift 1 over \<open>beta = 0.1\<close>, counter 3 with
  \<open>min_linear_iters = 3\<close>), yet \<open>relinearise_factors\<close> leaves the store as it is: the factor
  is not relinearised, and its counter is neither reset nor incremented.
\<close>

theorem relinearise_factors_policy_counterexample:
  "relin_due linear_graph (factor_at relin_heap 0)
   \<and> relinearise_factors linear_graph relin_heap = Inr relin_heap
   \<and> iters_since_relin (factor_at relin_heap 0) = 3
   \<and> linpoint (factor_at relin_heap 0) = [0]"
  by (simp add: relinearise_factors_def linear_graph_def relin_due_def relin_graph_def graph0_def
      relin_heap_def drifting_factor_def factor0_def inv_single matvec_def dot_def vnorm_single)

section \<open>Message computation\<close>

lemma block_start_Suc:
  "block_start h f (Suc v) = block_start h f v + dofs (var_at h (adj_var_nodes f ! v))"
  by (simp add: block_start_def)

lemma compute_loop_upt:
  assumes "compute_loop h f d [a..<k] (block_start h f a) (es, ls) = Inr (es', ls')"
    and "length es = a" "length ls = a"
  shows "length es' = max a k \<and> length ls' = max a k
       \<and> (\<forall>i<a. es' ! i = es ! i \<and> ls' ! i = ls ! i)
       \<and> (\<forall>v. a \<le> v \<and> v < k \<longrightarrow> outgoing h f d v (block_start h f v) = Inr (es' ! v, ls' ! v))"
  using assms
proof (induction "k - a" arbitrary: a es ls)
  case 0
  then show ?case by auto
next
  case (Suc n)
  then have ak: "a < k" by simp
  then have upt: "[a..<k] = a # [Suc a..<k]" by (simp add: upt_conv_Cons)
  from Suc.prems(1) obtain me ml where out: "outgoing h f d a (block_start h f a) = Inr (me, ml)"
    and rest: "compute_loop h f d [Suc a..<k] (block_start h f (Suc a)) (es @ [me], ls @ [ml])
                = Inr (es', ls')"
    unfolding upt by (auto simp: block_start_Suc split: sum.splits)
  have n: "n = k - Suc a" using Suc.hyps(2) by simp
  from Suc.hyps(1) [OF n rest] Suc.prems(2,3)
  have len: "length es' = max (Suc a) k" "length ls' = max (Suc a) k"
    and old: "\<forall>i<Suc a. es' ! i = (es @ [me]) ! i \<and> ls' ! i = (ls @ [ml]) ! i"
    and new: "\<forall>v. Suc a \<le> v \<and> v < k \<longrightarrow> outgoing h f d v (block_start h f v) = Inr (es' ! v, ls' ! v)"
    by simp_all
  from old Suc.prems(2,3) have here: "es' ! a = me" "ls' ! a = ml"
    by (auto simp: nth_append)
  from old Suc.prems(2,3) have before: "\<forall>i<a. es' ! i = es ! i \<and> ls' ! i = ls ! i"
    by (auto simp: nth_append)
  have "outgoing h f d v (block_start h f v) = Inr (es' ! v, ls' ! v)" if "a \<le> v" "v < k" for v
  proof (cases "v = a")
    case True
    with out here show ?thesis by simp
  next
    case False
    with that new show ?thesis by simp
  qed
  with len before ak show ?case by (simp add: max_def)
qed

lemma compute_loop_returns:
  assumes "list_all (\<lambda>v. \<not> isl (outgoing h f d v (block_start h f v))) [a..<k]"
  shows "\<exists>r. compute_loop h f d [a..<k] (block_start h f a) c = Inr r"
  using assms
proof (induction "k - a" arbitrary: a c)
  case 0
  then show ?case by simp
next
  case (Suc n)
  then have ak: "a < k" by simp
  then have upt: "[a..<k] = a # [Suc a..<k]" by (simp add: upt_conv_Cons)
  from Suc.prems upt obtain me ml where out: "outgoing h f d a (block_start h f a) = Inr (me, ml)"
    by (cases "outgoing h f d a (block_start h f a)") auto
  have n: "n = k - Suc a" using Suc.hyps(2) by simp
  from Suc.prems upt have "list_all (\<lambda>v. \<not> isl (outgoing h f d v (block_start h f v))) [Suc a..<k]"
    by simp
  from Suc.hyps(1) [OF n this, of "(fst c @ [me], snd c @ [ml])"] out
  show ?case unfolding upt by (simp add: block_start_Suc)
qed

lemma gaussian_overwrite_rev:
  "(G :: NdimGaussian)\<lparr>lam := L, eta := e\<rparr> = \<lparr>eta = e, lam = L\<rparr>"
  by (cases G) simp

lemma commit_message_step:
  assumes "v < length (messages f)"
    and "v = 0 \<longrightarrow> kf_Lambda hm \<noteq> []" and "v = 1 \<longrightarrow> lm_Lambda hm \<noteq> []"
  shows "\<exists>hm2. commit_message es ls v (f, hm)
                 = Inr (f\<lparr>messages := (messages f) [v := \<lparr>eta = es ! v, lam = ls ! v\<rparr>]\<rparr>, hm2)
               \<and> (kf_Lambda hm \<noteq> [] \<longrightarrow> kf_Lambda hm2 \<noteq> [])
               \<and> (lm_Lambda hm \<noteq> [] \<longrightarrow> lm_Lambda hm2 \<noteq> [])"
  using assms
  by (cases "v = 0"; cases "v = 1")
     (simp_all add: commit_message_def push_kf_def push_lm_def Let_def gaussian_overwrite_rev)

lemma commit_loop_closed:
  assumes "list_all (\<lambda>v. v < length (messages f)) order"
    and "0 \<in> set order \<longrightarrow> kf_Lambda hm \<noteq> []" and "1 \<in> set order \<longrightarrow> lm_Lambda hm \<noteq> []"
  shows "\<exists>hm'. commit_loop es ls order (f, hm) = Inr (committed es ls (set order) f, hm')"
  using assms
proof (induction order arbitrary: f hm)
  case Nil
  have "committed es ls {} f = f"
    by (simp add: committed_def map_nth)
  then show ?case by simp
next
  case (Cons v vs)
  let ?f1 = "f\<lparr>messages := (messages f) [v := \<lparr>eta = es ! v, lam = ls ! v\<rparr>]\<rparr>"
  from Cons.prems have v: "v < length (messages f)" by simp
  obtain hm2 where step: "commit_message es ls v (f, hm) = Inr (?f1, hm2)"
    and kf: "kf_Lambda hm \<noteq> [] \<longrightarrow> kf_Lambda hm2 \<noteq> []"
    and lm: "lm_Lambda hm \<noteq> [] \<longrightarrow> lm_Lambda hm2 \<noteq> []"
    using commit_message_step [OF v, of hm es ls] Cons.prems by auto
  have "list_all (\<lambda>v. v < length (messages ?f1)) vs"
    using Cons.prems by simp
  moreover have "0 \<in> set vs \<longrightarrow> kf_Lambda hm2 \<noteq> []" "1 \<in> set vs \<longrightarrow> lm_Lambda hm2 \<noteq> []"
    using Cons.prems kf lm by auto
  ultimately obtain hm' where
    rest: "commit_loop es ls vs (?f1, hm2) = Inr (committed es ls (set vs) ?f1, hm')"
    using Cons.IH [of ?f1 hm2] by blast
  have "committed es ls (set vs) ?f1 = committed es ls (set (v # vs)) f"
    using v by (auto simp: committed_def nth_list_update)
  with step rest show ?case by simp
qed

lemma outgoing_slot:
  assumes "outgoing h f d v s = Inr r"
  shows "v < length (messages f)"
  using assms by (auto simp: outgoing_def split: sum.splits if_splits)

text \<open>
  C9. Suppose the body of the first loop raises for no neighbour, and the heatmap has a
  current list for each push. Then \<open>compute_messages\<close> returns, and: the factor differs
  from the one at entry in its messages only; for every neighbour \<open>v\<close> the new message is
  what \<open>outgoing\<close> computes from the factor as it was at entry (its \<open>factor\<close>, its
  \<open>adj_beliefs\<close> and its \<open>messages\<close> of before the call), at the block start of \<open>v\<close>;
  messages at further positions are untouched. The lists of computed messages are complete
  before the first write, and writing them in any order of the positions gives the same
  factor.
\<close>

theorem compute_messages_two_phase:
  assumes computed: "list_all (\<lambda>v. \<not> isl (outgoing h f d v (block_start h f v)))
                       [0..<length (adj_vIDs f)]"
    and heatmap: "0 < length (adj_vIDs f) \<longrightarrow> kf_Lambda hm \<noteq> []"
      "1 < length (adj_vIDs f) \<longrightarrow> lm_Lambda hm \<noteq> []"
  shows "\<exists>es ls f' hm'.
           compute_loop h f d [0..<length (adj_vIDs f)] 0 ([], []) = Inr (es, ls)
         \<and> compute_messages h f d hm = Inr (f', hm')
         \<and> f' = f\<lparr>messages := messages f'\<rparr>
         \<and> length (messages f') = length (messages f)
         \<and> (\<forall>v < length (adj_vIDs f).
               outgoing h f d v (block_start h f v)
                 = Inr (eta (messages f' ! v), lam (messages f' ! v)))
         \<and> (\<forall>v. length (adj_vIDs f) \<le> v \<and> v < length (messages f)
                 \<longrightarrow> messages f' ! v = messages f ! v)
         \<and> (\<forall>order. set order = {0..<length (adj_vIDs f)}
                 \<longrightarrow> (\<exists>hm''. commit_loop es ls order (f, hm) = Inr (f', hm'')))"
proof -
  let ?k = "length (adj_vIDs f)"
  have start: "block_start h f 0 = 0" by (simp add: block_start_def)
  from compute_loop_returns [OF computed, of "([], [])"] obtain es ls where
    loop: "compute_loop h f d [0..<?k] 0 ([], []) = Inr (es, ls)"
    unfolding start by (metis surj_pair)
  from compute_loop_upt [of h f d 0 ?k "[]" "[]" es ls] loop
  have len: "length es = ?k" "length ls = ?k"
    and out: "\<forall>v. v < ?k \<longrightarrow> outgoing h f d v (block_start h f v) = Inr (es ! v, ls ! v)"
    unfolding start by simp_all
  have slots: "v < length (messages f)" if "v < ?k" for v
    using out that outgoing_slot by blast
  let ?f' = "committed es ls {0..<?k} f"
  have any: "\<exists>hm''. commit_loop es ls order (f, hm) = Inr (?f', hm'')"
    if "set order = {0..<?k}" for order
  proof -
    have "list_all (\<lambda>v. v < length (messages f)) order"
      using that slots by (auto simp: list_all_iff)
    moreover have "0 \<in> set order \<longrightarrow> kf_Lambda hm \<noteq> []" "1 \<in> set order \<longrightarrow> lm_Lambda hm \<noteq> []"
      using that heatmap by auto
    ultimately show ?thesis
      using commit_loop_closed [of f order hm es ls] that by simp
  qed
  from any [of "[0..<?k]"] obtain hm' where
    commit: "commit_loop es ls [0..<?k] (f, hm) = Inr (?f', hm')" by auto
  have run: "compute_messages h f d hm = Inr (?f', hm')"
    using loop commit by (simp add: compute_messages_def)
  have ms: "messages ?f' ! v = (if v < ?k then \<lparr>eta = es ! v, lam = ls ! v\<rparr> else messages f ! v)"
    if "v < length (messages f)" for v
    using that by (simp add: committed_def)
  have a: "?f' = f\<lparr>messages := messages ?f'\<rparr>" by (simp add: committed_def)
  have b: "length (messages ?f') = length (messages f)" by (simp add: committed_def)
  have c: "\<forall>v < ?k. outgoing h f d v (block_start h f v)
                 = Inr (eta (messages ?f' ! v), lam (messages ?f' ! v))"
    using out slots ms by simp
  have e: "\<forall>v. ?k \<le> v \<and> v < length (messages f) \<longrightarrow> messages ?f' ! v = messages f ! v"
    using ms by simp
  show ?thesis
    using loop run a b c e any by blast
qed

lemmas array_defs = vsub_def vadd_def vscale_def msub_def same_shape_def nrows_def vslice_def
  mslice_def vslice_add_def mslice_add_def row_add_def hstack_def vstack_def block4_def
  matmul_def matvec_def column_def dot_def

lemma difference_cavity0:
  "add_cavity pair_heap difference_factor 0 [0..<2] 0 ([2, - 2], Mat 2 [[1, - 1], [- 1, 1]])
   = Inr ([2, - 2], Mat 2 [[1, - 1], [- 1, 2]])"
  by (simp add: upt_rec cavity_step_def pair_heap_def difference_factor_def variable0_def
      factor0_def array_defs)

lemma difference_cavity1:
  "add_cavity pair_heap difference_factor 1 [0..<2] 0 ([2, - 2], Mat 2 [[1, - 1], [- 1, 1]])
   = Inr ([2, - 2], Mat 2 [[2, - 1], [- 1, 1]])"
  by (simp add: upt_rec cavity_step_def pair_heap_def difference_factor_def variable0_def
      factor0_def array_defs)

lemma difference_marginal0:
  "marginal [2, - 2] (Mat 2 [[1, - 1], [- 1, 2]]) 0 1 = Inr ([1], Mat 1 [[1 / 2]])"
  by (simp add: marginal_def lono_of_def lnoo_of_def lnono_of_def schur_lam_def schur_eta_def
      Let_def array_defs inv_single)

lemma difference_marginal1:
  "marginal [2, - 2] (Mat 2 [[2, - 1], [- 1, 1]]) 1 2 = Inr ([- 1], Mat 1 [[1 / 2]])"
  by (simp add: marginal_def lono_of_def lnoo_of_def lnono_of_def schur_lam_def schur_eta_def
      Let_def array_defs inv_single)

lemma difference_lengths:
  "adj_vIDs difference_factor = [0, 1]" "length (messages difference_factor) = 2"
  "factor difference_factor = \<lparr>eta = [2, - 2], lam = Mat 2 [[1, - 1], [- 1, 1]]\<rparr>"
  by (simp_all add: difference_factor_def factor0_def)

lemma difference_outgoing0:
  "outgoing pair_heap difference_factor 0 0 0 = Inr ([1], Mat 1 [[1 / 2]])"
proof -
  have "dofs (var_at pair_heap (adj_var_nodes difference_factor ! 0)) = 1"
    "eta (messages difference_factor ! 0) = [0]" "length (adj_var_nodes difference_factor) = 2"
    by (simp_all add: pair_heap_def difference_factor_def factor0_def variable0_def)
  then show ?thesis
    using difference_cavity0 difference_marginal0
    by (simp add: outgoing_def difference_lengths numeral_2_eq_2 vadd_def vscale_def)
qed

lemma difference_outgoing1:
  "outgoing pair_heap difference_factor 0 1 1 = Inr ([- 1], Mat 1 [[1 / 2]])"
proof -
  have "dofs (var_at pair_heap (adj_var_nodes difference_factor ! 1)) = 1"
    "eta (messages difference_factor ! 1) = [0]" "length (adj_var_nodes difference_factor) = 2"
    by (simp_all add: pair_heap_def difference_factor_def factor0_def variable0_def)
  then show ?thesis
    using difference_cavity1 difference_marginal1
    by (simp add: outgoing_def difference_lengths numeral_2_eq_2 vadd_def vscale_def)
qed

lemma difference_starts:
  "block_start pair_heap difference_factor 0 = 0" "block_start pair_heap difference_factor 1 = 1"
  by (simp_all add: block_start_def pair_heap_def difference_factor_def factor0_def variable0_def)

theorem compute_messages_two_phase_witness:
  "list_all (\<lambda>v. \<not> isl (outgoing pair_heap difference_factor 0 v
                           (block_start pair_heap difference_factor v)))
     [0..<length (adj_vIDs difference_factor)]
   \<and> kf_Lambda heatmap1 \<noteq> [] \<and> lm_Lambda heatmap1 \<noteq> []
   \<and> (\<exists>hm'. compute_messages pair_heap difference_factor 0 heatmap1
              = Inr (difference_factor\<lparr>messages :=
                       [\<lparr>eta = [1], lam = Mat 1 [[1 / 2]]\<rparr>,
                        \<lparr>eta = [- 1], lam = Mat 1 [[1 / 2]]\<rparr>]\<rparr>, hm'))
   \<and> (\<exists>es ls hm'.
         compute_loop pair_heap difference_factor 0 [0, 1] 0 ([], []) = Inr (es, ls)
         \<and> commit_loop es ls [1, 0] (difference_factor, heatmap1)
              = Inr (difference_factor\<lparr>messages :=
                       [\<lparr>eta = [1], lam = Mat 1 [[1 / 2]]\<rparr>,
                        \<lparr>eta = [- 1], lam = Mat 1 [[1 / 2]]\<rparr>]\<rparr>, hm'))"
proof -
  let ?f = difference_factor and ?h = pair_heap
  have upt2: "[0..<length (adj_vIDs ?f)] = [0, 1]"
    by (simp add: difference_lengths)
  have computed: "list_all (\<lambda>v. \<not> isl (outgoing ?h ?f 0 v (block_start ?h ?f v)))
     [0..<length (adj_vIDs ?f)]"
    unfolding upt2
    using difference_starts difference_outgoing0 difference_outgoing1 by simp
  have hm: "kf_Lambda heatmap1 \<noteq> []" "lm_Lambda heatmap1 \<noteq> []"
    by (simp_all add: heatmap1_def)
  from compute_messages_two_phase [OF computed, of heatmap1] hm
  obtain es ls f' hm' where
    loop: "compute_loop ?h ?f 0 [0..<length (adj_vIDs ?f)] 0 ([], []) = Inr (es, ls)"
    and run: "compute_messages ?h ?f 0 heatmap1 = Inr (f', hm')"
    and frame: "f' = ?f\<lparr>messages := messages f'\<rparr>"
    and len: "length (messages f') = length (messages ?f)"
    and out: "\<forall>v < length (adj_vIDs ?f).
               outgoing ?h ?f 0 v (block_start ?h ?f v)
                 = Inr (eta (messages f' ! v), lam (messages f' ! v))"
    and any: "\<forall>order. set order = {0..<length (adj_vIDs ?f)}
                 \<longrightarrow> (\<exists>hm''. commit_loop es ls order (?f, heatmap1) = Inr (f', hm''))"
    by auto
  from out difference_starts difference_outgoing0
  have "eta (messages f' ! 0) = [1] \<and> lam (messages f' ! 0) = Mat 1 [[1 / 2]]"
    by (auto simp: difference_lengths)
  then have m0: "messages f' ! 0 = \<lparr>eta = [1], lam = Mat 1 [[1 / 2]]\<rparr>"
    by (cases "messages f' ! 0") simp
  from out difference_starts difference_outgoing1
  have "eta (messages f' ! 1) = [- 1] \<and> lam (messages f' ! 1) = Mat 1 [[1 / 2]]"
    by (auto simp: difference_lengths)
  then have m1: "messages f' ! 1 = \<lparr>eta = [- 1], lam = Mat 1 [[1 / 2]]\<rparr>"
    by (cases "messages f' ! 1") simp
  from len have "length (messages f') = 2" by (simp add: difference_lengths)
  with m0 m1 have ms: "messages f' =
      [\<lparr>eta = [1], lam = Mat 1 [[1 / 2]]\<rparr>, \<lparr>eta = [- 1], lam = Mat 1 [[1 / 2]]\<rparr>]"
    by (auto simp: numeral_2_eq_2 length_Suc_conv)
  from frame ms have f': "f' = ?f\<lparr>messages :=
      [\<lparr>eta = [1], lam = Mat 1 [[1 / 2]]\<rparr>, \<lparr>eta = [- 1], lam = Mat 1 [[1 / 2]]\<rparr>]\<rparr>"
    by simp
  have "set [1, 0] = {0..<length (adj_vIDs ?f)}"
    by (auto simp: difference_lengths)
  with any obtain hm'' where "commit_loop es ls [1, 0] (?f, heatmap1) = Inr (f', hm'')"
    by blast
  with loop run f' computed hm show ?thesis
    unfolding upt2 by blast
qed

section \<open>Joint distribution\<close>

text \<open>
  An in-place addition to a slice is the addition of the placed block.
\<close>

lemma vslice_add_place:
  assumes "a + length x \<le> length v"
  shows "vslice_add v a (a + length x) x = Inr (vplus v (vplace (length v) a x))"
proof -
  have len: "length (vslice v a (a + length x)) = length x"
    using assms by (simp add: vslice_def)
  have "take a v @ map2 (+) (vslice v a (a + length x)) x @ drop (a + length x) v
        = vplus v (vplace (length v) a x)"
    using assms
    by (intro nth_equalityI)
       (auto simp: vplus_def vplace_def vslice_def nth_append min_def)
  with len show ?thesis by (simp add: vslice_add_def)
qed

lemma row_add_place:
  assumes "c0 + length x \<le> length row"
  shows "row_add c0 (c0 + length x) row x = vplus row (vplace (length row) c0 x)"
  using assms
  by (intro nth_equalityI)
     (auto simp: row_add_def vplus_def vplace_def vslice_def nth_append min_def)

lemma vplus_zero: "length v = n \<Longrightarrow> vplus v (replicate n 0) = v"
  by (intro nth_equalityI) (auto simp: vplus_def)

lemma vplus_length: "length a = n \<Longrightarrow> length b = n \<Longrightarrow> length (vplus a b) = n"
  by (simp add: vplus_def)

lemma vplace_length: "a + length x \<le> n \<Longrightarrow> length (vplace n a x) = n"
  by (simp add: vplace_def)

lemma wf_mat_nth: "wf_mat M \<Longrightarrow> i < nrows M \<Longrightarrow> length (rows M ! i) = ncols M"
  by (simp add: wf_mat_def nrows_def list_all_length)

lemma mslice_shape:
  assumes "wf_mat M" "r0 + d \<le> nrows M" "c0 + d' \<le> ncols M"
  shows "nrows (mslice M r0 (r0 + d) c0 (c0 + d')) = d"
    and "ncols (mslice M r0 (r0 + d) c0 (c0 + d')) = d'"
    and "wf_mat (mslice M r0 (r0 + d) c0 (c0 + d'))"
  using assms
  by (auto simp: mslice_def nrows_def wf_mat_def list_all_iff dest!: in_set_takeD in_set_dropD)

lemma mplace_shape:
  assumes "wf_mat X" "r0 + nrows X \<le> n" "c0 + ncols X \<le> n"
  shows "nrows (mplace n r0 c0 X) = n" and "ncols (mplace n r0 c0 X) = n"
    and "wf_mat (mplace n r0 c0 X)"
  using assms
  by (auto simp: mplace_def nrows_def wf_mat_def list_all_iff vplace_def)

lemma mplus_shape:
  assumes "wf_mat A" "nrows A = n" "ncols A = n" "wf_mat B" "nrows B = n" "ncols B = n"
  shows "nrows (mplus A B) = n" and "ncols (mplus A B) = n" and "wf_mat (mplus A B)"
  using assms
  by (auto simp: mplus_def nrows_def wf_mat_def list_all_iff vplus_def set_zip)

lemma mslice_add_place:
  assumes M: "wf_mat M" "nrows M = n" "ncols M = n"
    and X: "wf_mat X" "r0 + nrows X \<le> n" "c0 + ncols X \<le> n"
  shows "mslice_add M r0 (r0 + nrows X) c0 (c0 + ncols X) X = Inr (mplus M (mplace n r0 c0 X))"
proof -
  have shape: "same_shape X (mslice M r0 (r0 + nrows X) c0 (c0 + ncols X))"
    using mslice_shape [of M r0 "nrows X" c0 "ncols X"] M X by (simp add: same_shape_def)
  have row: "length (rows M ! i) = n" if "i < n" for i
    using wf_mat_nth [OF M(1)] M that by simp
  have xrow: "length (rows X ! i) = ncols X" if "i < nrows X" for i
    using wf_mat_nth [OF X(1)] that by simp
  have len: "length (rows M) = n" using M by (simp add: nrows_def)
  have "take r0 (rows M)
          @ map2 (row_add c0 (c0 + ncols X)) (take (nrows X) (drop r0 (rows M))) (rows X)
          @ drop (r0 + nrows X) (rows M)
        = map2 vplus (rows M) (rows (mplace n r0 c0 X))"
  proof (rule nth_equalityI)
    show "length (take r0 (rows M)
          @ map2 (row_add c0 (c0 + ncols X)) (take (nrows X) (drop r0 (rows M))) (rows X)
          @ drop (r0 + nrows X) (rows M))
        = length (map2 vplus (rows M) (rows (mplace n r0 c0 X)))"
      using len X by (simp add: mplace_def nrows_def)
  next
    fix i
    assume "i < length (take r0 (rows M)
          @ map2 (row_add c0 (c0 + ncols X)) (take (nrows X) (drop r0 (rows M))) (rows X)
          @ drop (r0 + nrows X) (rows M))"
    then have i: "i < n" using len X by (simp add: nrows_def)
    consider (above) "i < r0" | (inside) "r0 \<le> i" "i < r0 + nrows X" | (below) "r0 + nrows X \<le> i"
      by linarith
    then show "(take r0 (rows M)
          @ map2 (row_add c0 (c0 + ncols X)) (take (nrows X) (drop r0 (rows M))) (rows X)
          @ drop (r0 + nrows X) (rows M)) ! i
        = map2 vplus (rows M) (rows (mplace n r0 c0 X)) ! i"
    proof cases
      case above
      then show ?thesis
        using i len X row [OF i]
        by (simp add: nth_append mplace_def nrows_def vplus_zero)
    next
      case inside
      then have k: "i - r0 < nrows X" by simp
      have "row_add c0 (c0 + ncols X) (rows M ! i) (rows X ! (i - r0))
            = vplus (rows M ! i) (vplace n c0 (rows X ! (i - r0)))"
        using row_add_place [of c0 "rows X ! (i - r0)" "rows M ! i"] xrow [OF k] row [OF i] X
        by simp
      then show ?thesis
        using inside i len X k
        by (simp add: nth_append mplace_def nrows_def)
    next
      case below
      then have out: "\<not> i < r0" "\<not> i - r0 < length (rows X)"
        "i - r0 - length (rows X) < n - r0 - length (rows X)"
        "r0 + length (rows X) + (i - r0 - length (rows X)) = i"
        using i by (simp_all add: nrows_def)
      show ?thesis
        using i len X row [OF i] out
        by (simp add: nth_append mplace_def nrows_def vplus_zero)
    qed
  qed
  with shape M show ?thesis
    by (simp add: mslice_add_def mplus_def)
qed

text \<open>
  One addition of a block of a factor into the joint \<open>lam\<close>.
\<close>

lemma lam_block_add:
  assumes L: "fits (joint_dim h g) L"
    and F: "fits (length (eta (factor f))) (lam (factor f))"
    and p: "block_ok h g f p" and q: "block_ok h g f q"
  shows "mslice_add L
           (id_offset h g (variableID (var_at h (fst p))))
           (id_offset h g (variableID (var_at h (fst p))) + dofs (var_at h (fst p)))
           (id_offset h g (variableID (var_at h (fst q))))
           (id_offset h g (variableID (var_at h (fst q))) + dofs (var_at h (fst q)))
           (mslice (lam (factor f)) (snd p) (snd p + dofs (var_at h (fst p)))
              (snd q) (snd q + dofs (var_at h (fst q))))
         = Inr (mplus L (lam_block h g f p q))"
    and "fits (joint_dim h g) (mplus L (lam_block h g f p q))"
proof -
  let ?X = "mslice (lam (factor f)) (snd p) (snd p + dofs (var_at h (fst p)))
              (snd q) (snd q + dofs (var_at h (fst q)))"
  have X: "nrows ?X = dofs (var_at h (fst p))" "ncols ?X = dofs (var_at h (fst q))" "wf_mat ?X"
    using mslice_shape [of "lam (factor f)" "snd p" "dofs (var_at h (fst p))" "snd q"
        "dofs (var_at h (fst q))"] F p q
    by (simp_all add: fits_def block_ok_def)
  have "mslice_add L
           (id_offset h g (variableID (var_at h (fst p))))
           (id_offset h g (variableID (var_at h (fst p))) + nrows ?X)
           (id_offset h g (variableID (var_at h (fst q))))
           (id_offset h g (variableID (var_at h (fst q))) + ncols ?X) ?X
        = Inr (mplus L (mplace (joint_dim h g)
                  (id_offset h g (variableID (var_at h (fst p))))
                  (id_offset h g (variableID (var_at h (fst q)))) ?X))"
    using L X p q by (intro mslice_add_place) (simp_all add: fits_def block_ok_def)
  then show "mslice_add L
           (id_offset h g (variableID (var_at h (fst p))))
           (id_offset h g (variableID (var_at h (fst p))) + dofs (var_at h (fst p)))
           (id_offset h g (variableID (var_at h (fst q))))
           (id_offset h g (variableID (var_at h (fst q))) + dofs (var_at h (fst q))) ?X
         = Inr (mplus L (lam_block h g f p q))"
    by (simp add: X lam_block_def)
  have "fits (joint_dim h g) (lam_block h g f p q)"
    using mplace_shape [of ?X "id_offset h g (variableID (var_at h (fst p)))" "joint_dim h g"
        "id_offset h g (variableID (var_at h (fst q)))"] X p q
    by (simp add: fits_def lam_block_def block_ok_def)
  with L show "fits (joint_dim h g) (mplus L (lam_block h g f p q))"
    using mplus_shape [of L "joint_dim h g" "lam_block h g f p q"] by (simp add: fits_def)
qed

text \<open>
  The loops of the method add the blocks of the specification, in the same order.
\<close>

lemma off_diagonal_step_blocks:
  assumes L: "fits (joint_dim h g) L"
    and F: "fits (length (eta (factor f))) (lam (factor f))"
    and p: "block_ok h g f p" and q: "block_ok h g f q"
    and ix: "var_ix = map (id_offset h g) [0..<length (var_nodes g)]"
  shows "off_diagonal_step h f var_ix (fst p) (snd p) (fst q) (snd q) L
         = Inr (foldl mplus L (off_diagonal_blocks h g f p [q]))"
    and "fits (joint_dim h g) (foldl mplus L (off_diagonal_blocks h g f p [q]))"
proof -
  note one = lam_block_add [OF L F p q]
  note two = lam_block_add [OF one(2) F q p]
  have vp: "var_ix ! variableID (var_at h (fst p)) = id_offset h g (variableID (var_at h (fst p)))"
    and vq: "var_ix ! variableID (var_at h (fst q)) = id_offset h g (variableID (var_at h (fst q)))"
    and lp: "variableID (var_at h (fst p)) < length var_ix"
    and lq: "variableID (var_at h (fst q)) < length var_ix"
    using p q ix by (simp_all add: block_ok_def)
  show "off_diagonal_step h f var_ix (fst p) (snd p) (fst q) (snd q) L
         = Inr (foldl mplus L (off_diagonal_blocks h g f p [q]))"
    by (simp add: off_diagonal_step_def Let_def vp vq lp lq one(1) two(1) off_diagonal_blocks_def)
  show "fits (joint_dim h g) (foldl mplus L (off_diagonal_blocks h g f p [q]))"
    using L one(2) two(2) by (simp add: off_diagonal_blocks_def)
qed

lemma off_diagonal_loop_blocks:
  assumes "fits (joint_dim h g) L"
    and "fits (length (eta (factor f))) (lam (factor f))"
    and "block_ok h g f p" and "list_all (block_ok h g f) (blocks_from h t bs)"
    and "var_ix = map (id_offset h g) [0..<length (var_nodes g)]"
  shows "off_diagonal_loop h f var_ix (fst p) (snd p) bs t L
         = Inr (foldl mplus L (off_diagonal_blocks h g f p (blocks_from h t bs)))
       \<and> fits (joint_dim h g) (foldl mplus L (off_diagonal_blocks h g f p (blocks_from h t bs)))"
  using assms
proof (induction bs arbitrary: t L)
  case Nil
  then show ?case by (simp add: off_diagonal_blocks_def)
next
  case (Cons b bs)
  from Cons.prems(4) have q: "block_ok h g f (b, t)"
    and rest: "list_all (block_ok h g f) (blocks_from h (t + dofs (var_at h b)) bs)"
    by simp_all
  note step = off_diagonal_step_blocks [OF Cons.prems(1,2,3) q Cons.prems(5)]
  have split: "off_diagonal_blocks h g f p (blocks_from h t (b # bs))
      = off_diagonal_blocks h g f p [(b, t)]
        @ off_diagonal_blocks h g f p (blocks_from h (t + dofs (var_at h b)) bs)"
    by (simp add: off_diagonal_blocks_def)
  from Cons.IH [OF step(2) Cons.prems(2,3) rest Cons.prems(5)] step(1)
  show ?case
    unfolding split foldl_append by simp
qed

lemma eta_block_add:
  assumes E: "length E = joint_dim h g" and p: "block_ok h g f p"
  shows "vslice_add E (id_offset h g (variableID (var_at h (fst p))))
           (id_offset h g (variableID (var_at h (fst p))) + dofs (var_at h (fst p)))
           (vslice (eta (factor f)) (snd p) (snd p + dofs (var_at h (fst p))))
         = Inr (vplus E (eta_block h g f p))"
    and "length (vplus E (eta_block h g f p)) = joint_dim h g"
proof -
  let ?x = "vslice (eta (factor f)) (snd p) (snd p + dofs (var_at h (fst p)))"
  let ?a = "id_offset h g (variableID (var_at h (fst p)))"
  have x: "length ?x = dofs (var_at h (fst p))"
    using p by (auto simp: block_ok_def vslice_def)
  have fitx: "?a + length ?x \<le> length E"
    using p E x by (simp add: block_ok_def)
  from vslice_add_place [OF fitx]
  show "vslice_add E ?a (?a + dofs (var_at h (fst p))) ?x = Inr (vplus E (eta_block h g f p))"
    by (simp add: x E eta_block_def)
  have "length (eta_block h g f p) = joint_dim h g"
    using vplace_length [of ?a ?x "joint_dim h g"] fitx E by (simp add: eta_block_def)
  with E show "length (vplus E (eta_block h g f p)) = joint_dim h g"
    by (simp add: vplus_length)
qed

lemma adj_step_blocks:
  assumes E: "length E = joint_dim h g" and L: "fits (joint_dim h g) L"
    and F: "fits (length (eta (factor f))) (lam (factor f))"
    and p: "block_ok h g f p"
    and every: "list_all (block_ok h g f) (blocks_from h 0 (adj_var_nodes f))"
    and ix: "var_ix = map (id_offset h g) [0..<length (var_nodes g)]"
  shows "adj_step h f var_ix (fst p) (snd p) (E, L)
         = Inr (vplus E (eta_block h g f p),
                foldl mplus L (lam_block h g f p p
                  # off_diagonal_blocks h g f p (blocks_from h 0 (adj_var_nodes f))))
       \<and> length (vplus E (eta_block h g f p)) = joint_dim h g
       \<and> fits (joint_dim h g)
           (foldl mplus L (lam_block h g f p p
              # off_diagonal_blocks h g f p (blocks_from h 0 (adj_var_nodes f))))"
proof -
  note e = eta_block_add [OF E p]
  note d = lam_block_add [OF L F p p]
  note o = off_diagonal_loop_blocks [OF d(2) F p every ix]
  have vp: "var_ix ! variableID (var_at h (fst p)) = id_offset h g (variableID (var_at h (fst p)))"
    and lp: "variableID (var_at h (fst p)) < length var_ix"
    using p ix by (simp_all add: block_ok_def)
  have "adj_step h f var_ix (fst p) (snd p) (E, L)
         = Inr (vplus E (eta_block h g f p),
                foldl mplus L (lam_block h g f p p
                  # off_diagonal_blocks h g f p (blocks_from h 0 (adj_var_nodes f))))"
    using o by (simp add: adj_step_def Let_def vp lp e(1) d(1))
  with e(2) o show ?thesis by simp
qed

lemma adj_loop_blocks:
  assumes "length E = joint_dim h g" and "fits (joint_dim h g) L"
    and "fits (length (eta (factor f))) (lam (factor f))"
    and "list_all (block_ok h g f) (blocks_from h t as)"
    and "list_all (block_ok h g f) (blocks_from h 0 (adj_var_nodes f))"
    and "var_ix = map (id_offset h g) [0..<length (var_nodes g)]"
  shows "adj_loop h f var_ix as t (E, L)
         = Inr (foldl vplus E (map (eta_block h g f) (blocks_from h t as)),
                foldl mplus L (factor_lam_blocks h g f (blocks_from h t as)))
       \<and> length (foldl vplus E (map (eta_block h g f) (blocks_from h t as))) = joint_dim h g
       \<and> fits (joint_dim h g) (foldl mplus L (factor_lam_blocks h g f (blocks_from h t as)))"
  using assms
proof (induction as arbitrary: t E L)
  case Nil
  then show ?case by (simp add: factor_lam_blocks_def)
next
  case (Cons a as)
  from Cons.prems(4) have p: "block_ok h g f (a, t)"
    and rest: "list_all (block_ok h g f) (blocks_from h (t + dofs (var_at h a)) as)"
    by simp_all
  note step = adj_step_blocks [OF Cons.prems(1,2,3) p Cons.prems(5,6)]
  from step have s1: "adj_step h f var_ix a t (E, L)
         = Inr (vplus E (eta_block h g f (a, t)),
                foldl mplus L (lam_block h g f (a, t) (a, t)
                  # off_diagonal_blocks h g f (a, t) (blocks_from h 0 (adj_var_nodes f))))"
    and s2: "length (vplus E (eta_block h g f (a, t))) = joint_dim h g"
    and s3: "fits (joint_dim h g)
           (foldl mplus L (lam_block h g f (a, t) (a, t)
              # off_diagonal_blocks h g f (a, t) (blocks_from h 0 (adj_var_nodes f))))"
    by simp_all
  have split: "factor_lam_blocks h g f (blocks_from h t (a # as))
      = (lam_block h g f (a, t) (a, t)
          # off_diagonal_blocks h g f (a, t) (blocks_from h 0 (adj_var_nodes f)))
        @ factor_lam_blocks h g f (blocks_from h (t + dofs (var_at h a)) as)"
    by (simp add: factor_lam_blocks_def)
  from Cons.IH [OF s2 s3 Cons.prems(3) rest Cons.prems(5,6)] s1
  show ?case
    unfolding split foldl_append by simp
qed

lemma factor_loop_blocks:
  assumes "length E = joint_dim h g" and "fits (joint_dim h g) L"
    and "list_all (factor_ok h g) Fs"
    and "var_ix = map (id_offset h g) [0..<length (var_nodes g)]"
  shows "factor_loop h var_ix Fs (E, L)
         = Inr (foldl vplus E
                  (concat (map (\<lambda>F. map (eta_block h g (factor_at h F))
                                    (blocks_from h 0 (adj_var_nodes (factor_at h F)))) Fs)),
                foldl mplus L
                  (concat (map (\<lambda>F. factor_lam_blocks h g (factor_at h F)
                                    (blocks_from h 0 (adj_var_nodes (factor_at h F)))) Fs)))"
  using assms
proof (induction Fs arbitrary: E L)
  case Nil
  then show ?case by simp
next
  case (Cons F Fs)
  from Cons.prems(3) have ok: "factor_ok h g F" and rest: "list_all (factor_ok h g) Fs"
    by simp_all
  from ok have F: "fits (length (eta (factor (factor_at h F)))) (lam (factor (factor_at h F)))"
    and bs: "list_all (block_ok h g (factor_at h F)) (blocks_from h 0 (adj_var_nodes (factor_at h F)))"
    by (simp_all add: factor_ok_def)
  note step = adj_loop_blocks [OF Cons.prems(1,2) F bs bs Cons.prems(4)]
  from step have s1: "adj_loop h (factor_at h F) var_ix (adj_var_nodes (factor_at h F)) 0 (E, L)
      = Inr (foldl vplus E (map (eta_block h g (factor_at h F))
                              (blocks_from h 0 (adj_var_nodes (factor_at h F)))),
             foldl mplus L (factor_lam_blocks h g (factor_at h F)
                              (blocks_from h 0 (adj_var_nodes (factor_at h F)))))"
    and s2: "length (foldl vplus E (map (eta_block h g (factor_at h F))
                              (blocks_from h 0 (adj_var_nodes (factor_at h F))))) = joint_dim h g"
    and s3: "fits (joint_dim h g) (foldl mplus L (factor_lam_blocks h g (factor_at h F)
                              (blocks_from h 0 (adj_var_nodes (factor_at h F)))))"
    by simp_all
  from Cons.IH [OF s2 s3 rest Cons.prems(4)] s1
  show ?case by simp
qed

text \<open>
  The first loop, on a variable list in id order.
\<close>

lemma joint_priors_append:
  "joint_priors h (xs @ ys) st =
     (case joint_priors h xs st of Inl e \<Rightarrow> Inl e | Inr st1 \<Rightarrow> joint_priors h ys st1)"
  by (induction xs arbitrary: st) (simp_all split: sum.splits)

lemma var_ix_step:
  fixes t :: nat
  assumes "n < N"
  shows "(map f [0..<n] @ replicate (N - n) 0)[n := t]
         = map (\<lambda>i. if i < n then f i else t) [0..<Suc n] @ replicate (N - Suc n) 0"
proof (rule nth_equalityI)
  show "length ((map f [0..<n] @ replicate (N - n) 0)[n := t])
        = length (map (\<lambda>i. if i < n then f i else t) [0..<Suc n] @ replicate (N - Suc n) 0)"
    using assms by simp
next
  fix i
  assume "i < length ((map f [0..<n] @ replicate (N - n) 0)[n := t])"
  then have i: "i < N" using assms by simp
  consider "i < n" | "i = n" | "n < i" by linarith
  then show "(map f [0..<n] @ replicate (N - n) 0)[n := t] ! i
        = (map (\<lambda>i. if i < n then f i else t) [0..<Suc n] @ replicate (N - Suc n) 0) ! i"
  proof cases
    case 1
    then show ?thesis using i assms by (simp add: nth_append nth_list_update del: upt_Suc)
  next
    case 2
    then show ?thesis using i assms by (simp add: nth_append nth_list_update del: upt_Suc)
  next
    case 3
    then show ?thesis using i assms by (simp add: nth_append nth_list_update del: upt_Suc)
  qed
qed

lemma block_diag_empty: "block_diag (Mat 0 []) X = X"
  by (cases X) (simp add: block_diag_def)

lemma joint_priors_prefix:
  assumes "map (\<lambda>r. variableID (var_at h r)) pre = [0..<length pre]"
    and "length pre \<le> N" and "pre \<noteq> []"
  shows "joint_priors h pre ([], Mat 0 [[]], replicate N 0, 0)
         = Inr (concat (map (\<lambda>r. eta (prior (var_at h r))) pre),
                foldl block_diag (Mat 0 []) (map (\<lambda>r. lam (prior (var_at h r))) pre),
                map (\<lambda>i. \<Sum>r\<leftarrow>take i pre. dofs (var_at h r)) [0..<length pre]
                  @ replicate (N - length pre) 0,
                \<Sum>r\<leftarrow>pre. dofs (var_at h r))"
  using assms
proof (induction pre rule: rev_induct)
  case Nil
  then show ?case by simp
next
  case (snoc r pre)
  from snoc.prems(1) have ids: "map (\<lambda>r. variableID (var_at h r)) pre = [0..<length pre]"
    and idr: "variableID (var_at h r) = length pre"
    by simp_all
  from snoc.prems(2) have n: "length pre < N" by simp
  show ?case
  proof (cases "pre = []")
    case True
    have "(replicate N (0::nat))[0 := 0] = 0 # replicate (N - Suc 0) 0"
      using n by (cases N) simp_all
    then show ?thesis
      using True idr n
      by (simp add: prior_step_def Let_def block_diag_empty)
  next
    case False
    have run: "joint_priors h pre ([], Mat 0 [[]], replicate N 0, 0)
         = Inr (concat (map (\<lambda>r. eta (prior (var_at h r))) pre),
                foldl block_diag (Mat 0 []) (map (\<lambda>r. lam (prior (var_at h r))) pre),
                map (\<lambda>i. \<Sum>r\<leftarrow>take i pre. dofs (var_at h r)) [0..<length pre]
                  @ replicate (N - length pre) 0,
                \<Sum>r\<leftarrow>pre. dofs (var_at h r))"
      using snoc.IH [OF ids] n False by simp
    have ix: "(map (\<lambda>i. \<Sum>r\<leftarrow>take i pre. dofs (var_at h r)) [0..<length pre]
                @ replicate (N - length pre) 0)[length pre := \<Sum>r\<leftarrow>pre. dofs (var_at h r)]
              = map (\<lambda>i. \<Sum>r\<leftarrow>take i (pre @ [r]). dofs (var_at h r)) [0..<length (pre @ [r])]
                @ replicate (N - length (pre @ [r])) 0"
      unfolding var_ix_step [OF n]
      by (simp del: upt_Suc)
    have nz: "length pre \<noteq> 0" using False by simp
    show ?thesis
      unfolding joint_priors_append run
      using n nz ix
      by (simp add: prior_step_def Let_def idr)
  qed
qed

lemma block_diag_list_fold:
  "Ms \<noteq> [] \<Longrightarrow> block_diag_list Ms = foldl block_diag (Mat 0 []) Ms"
  by (cases Ms) (simp_all add: block_diag_list_def block_diag_empty)

lemma by_id_ordered: "id_ordered h g \<Longrightarrow> by_id h g = var_nodes g"
  unfolding by_id_def id_ordered_def
  by (rule sort_key_id_if_sorted) simp

lemma joint_priors_ordered:
  assumes "id_ordered h g" and "var_nodes g \<noteq> []"
  shows "joint_priors h (var_nodes g) ([], Mat 0 [[]], replicate (length (var_nodes g)) 0, 0)
         = Inr (prior_eta h g, prior_lam h g,
                map (id_offset h g) [0..<length (var_nodes g)], joint_dim h g)"
proof -
  have "joint_priors h (var_nodes g) ([], Mat 0 [[]], replicate (length (var_nodes g)) 0, 0)
         = Inr (concat (map (\<lambda>r. eta (prior (var_at h r))) (var_nodes g)),
                foldl block_diag (Mat 0 []) (map (\<lambda>r. lam (prior (var_at h r))) (var_nodes g)),
                map (\<lambda>i. \<Sum>r\<leftarrow>take i (var_nodes g). dofs (var_at h r)) [0..<length (var_nodes g)]
                  @ replicate (length (var_nodes g) - length (var_nodes g)) 0,
                \<Sum>r\<leftarrow>var_nodes g. dofs (var_at h r))"
    using assms by (intro joint_priors_prefix) (simp_all add: id_ordered_def)
  moreover have "map (\<lambda>i. \<Sum>r\<leftarrow>take i (var_nodes g). dofs (var_at h r)) [0..<length (var_nodes g)]
      = map (id_offset h g) [0..<length (var_nodes g)]"
    using by_id_ordered [OF assms(1)] by (simp add: id_offset_def)
  ultimately show ?thesis
    using by_id_ordered [OF assms(1)] assms(2)
    by (simp add: prior_eta_def prior_lam_def joint_dim_def block_diag_list_fold)
qed

text \<open>
  The priors together have the size of the joint, and every block of a factor fits.
\<close>

lemma block_diag_fits:
  assumes "fits n A" and "fits m B"
  shows "fits (n + m) (block_diag A B)"
  using assms
  by (auto simp: fits_def block_diag_def wf_mat_def nrows_def list_all_iff)

lemma prior_blocks_fit:
  assumes "fits n A"
    and "list_all (\<lambda>r. sized (dofs (var_at h r)) (prior (var_at h r))) vs"
  shows "fits (n + (\<Sum>r\<leftarrow>vs. dofs (var_at h r)))
           (foldl block_diag A (map (\<lambda>r. lam (prior (var_at h r))) vs))"
  using assms
proof (induction vs arbitrary: n A)
  case Nil
  then show ?case by simp
next
  case (Cons v vs)
  from Cons.prems(2) have v: "fits (dofs (var_at h v)) (lam (prior (var_at h v)))"
    and rest: "list_all (\<lambda>r. sized (dofs (var_at h r)) (prior (var_at h r))) vs"
    by (simp_all add: sized_def fits_def)
  from Cons.IH [OF block_diag_fits [OF Cons.prems(1) v] rest]
  show ?case by (simp add: add.assoc)
qed

lemma prior_eta_length:
  assumes "list_all (\<lambda>r. sized (dofs (var_at h r)) (prior (var_at h r))) vs"
  shows "length (concat (map (\<lambda>r. eta (prior (var_at h r))) vs)) = (\<Sum>r\<leftarrow>vs. dofs (var_at h r))"
  using assms by (induction vs) (simp_all add: sized_def)

lemma priors_fit:
  assumes "id_ordered h g" and "graph_sized h g" and ne: "var_nodes g \<noteq> []"
  shows "length (prior_eta h g) = joint_dim h g" and "fits (joint_dim h g) (prior_lam h g)"
proof -
  from assms(2) have pri: "list_all (\<lambda>r. sized (dofs (var_at h r)) (prior (var_at h r))) (var_nodes g)"
    by (simp add: graph_sized_def)
  show "length (prior_eta h g) = joint_dim h g"
    using prior_eta_length [OF pri] by_id_ordered [OF assms(1)]
    by (simp add: prior_eta_def joint_dim_def)
  have "fits 0 (Mat 0 [])" by (simp add: fits_def wf_mat_def nrows_def)
  from prior_blocks_fit [OF this pri] by_id_ordered [OF assms(1)] ne
  show "fits (joint_dim h g) (prior_lam h g)"
    by (simp add: prior_lam_def joint_dim_def block_diag_list_fold)
qed

lemma blocks_from_bounds:
  assumes "(a, s) \<in> set (blocks_from h t as)"
  shows "a \<in> set as \<and> s + dofs (var_at h a) \<le> t + (\<Sum>r\<leftarrow>as. dofs (var_at h r))"
  using assms
proof (induction as arbitrary: t)
  case Nil
  then show ?case by simp
next
  case (Cons b bs)
  from Cons.prems consider "a = b" "s = t" | "(a, s) \<in> set (blocks_from h (t + dofs (var_at h b)) bs)"
    by auto
  then show ?case
  proof cases
    case 1
    then show ?thesis by simp
  next
    case 2
    from Cons.IH [OF 2] show ?thesis by simp
  qed
qed

lemma sum_prefix_le:
  fixes f :: "'a \<Rightarrow> nat"
  assumes "i < length xs"
  shows "sum_list (map f (take i xs)) + f (xs ! i) \<le> sum_list (map f xs)"
proof -
  have "sum_list (map f xs) = sum_list (map f (take (Suc i) xs @ drop (Suc i) xs))"
    by simp
  also have "\<dots> = sum_list (map f (take (Suc i) xs)) + sum_list (map f (drop (Suc i) xs))"
    by (simp only: map_append sum_list_append)
  finally have "sum_list (map f (take (Suc i) xs)) \<le> sum_list (map f xs)"
    by simp
  then show ?thesis using assms by (simp add: take_Suc_conv_app_nth)
qed

lemma variable_block_ok:
  assumes ord: "id_ordered h g" and a: "a \<in> set (var_nodes g)"
  shows "variableID (var_at h a) < length (var_nodes g)"
    and "id_offset h g (variableID (var_at h a)) + dofs (var_at h a) \<le> joint_dim h g"
proof -
  from a obtain i where i: "i < length (var_nodes g)" and ai: "var_nodes g ! i = a"
    by (auto simp: in_set_conv_nth)
  have "map (\<lambda>r. variableID (var_at h r)) (var_nodes g) ! i = [0..<length (var_nodes g)] ! i"
    using ord by (simp only: id_ordered_def)
  then have id: "variableID (var_at h a) = i"
    using i ai by simp
  show "variableID (var_at h a) < length (var_nodes g)"
    using id i by simp
  have "sum_list (map (\<lambda>r. dofs (var_at h r)) (take i (var_nodes g)))
          + dofs (var_at h (var_nodes g ! i))
        \<le> sum_list (map (\<lambda>r. dofs (var_at h r)) (var_nodes g))"
    by (rule sum_prefix_le [OF i])
  then show "id_offset h g (variableID (var_at h a)) + dofs (var_at h a) \<le> joint_dim h g"
    using by_id_ordered [OF ord] id ai by (simp add: id_offset_def joint_dim_def)
qed

lemma factor_sized_ok:
  assumes ord: "id_ordered h g" and F: "factor_sized h g F"
  shows "factor_ok h g F"
proof -
  from F have adj: "\<And>a. a \<in> set (adj_var_nodes (factor_at h F)) \<Longrightarrow> a \<in> set (var_nodes g)"
    and sz: "sized (\<Sum>a\<leftarrow>adj_var_nodes (factor_at h F). dofs (var_at h a)) (factor (factor_at h F))"
    by (simp_all add: factor_sized_def list_all_iff)
  from sz have len: "length (eta (factor (factor_at h F)))
      = (\<Sum>a\<leftarrow>adj_var_nodes (factor_at h F). dofs (var_at h a))"
    and fit: "fits (length (eta (factor (factor_at h F)))) (lam (factor (factor_at h F)))"
    by (simp_all add: sized_def fits_def)
  have "block_ok h g (factor_at h F) p"
    if p: "p \<in> set (blocks_from h 0 (adj_var_nodes (factor_at h F)))" for p
  proof -
    obtain a s where ps: "p = (a, s)" by (cases p)
    from blocks_from_bounds [of a s h 0 "adj_var_nodes (factor_at h F)"] p ps
    have a: "a \<in> set (adj_var_nodes (factor_at h F))"
      and s: "s + dofs (var_at h a) \<le> (\<Sum>r\<leftarrow>adj_var_nodes (factor_at h F). dofs (var_at h r))"
      by simp_all
    from variable_block_ok [OF ord adj [OF a]] s len ps
    show ?thesis by (simp add: block_ok_def)
  qed
  then have "list_all (block_ok h g (factor_at h F))
               (blocks_from h 0 (adj_var_nodes (factor_at h F)))"
    by (simp add: list_all_iff)
  with fit show ?thesis by (simp add: factor_ok_def)
qed

lemma factor_loop_no_blocks:
  assumes "list_all (\<lambda>F. adj_var_nodes (factor_at h F) = []) Fs"
  shows "factor_loop h var_ix Fs el = Inr el"
  using assms by (induction Fs) simp_all

lemma no_blocks:
  assumes "list_all (\<lambda>F. adj_var_nodes (factor_at h F) = []) Fs"
  shows "concat (map (\<lambda>F. map (eta_block h g (factor_at h F))
                          (blocks_from h 0 (adj_var_nodes (factor_at h F)))) Fs) = []"
    and "concat (map (\<lambda>F. factor_lam_blocks h g (factor_at h F)
                          (blocks_from h 0 (adj_var_nodes (factor_at h F)))) Fs) = []"
  using assms by (induction Fs) (simp_all add: factor_lam_blocks_def)

text \<open>
  C3, as the code has it. For every graph satisfying the data model whose variable list is in ascending
  id order, \<open>joint_distribution_inf\<close> returns the joint of the specification: \<open>eta\<close> is the
  concatenation of the priors' \<open>eta\<close> by ascending id and \<open>lam\<close> the block diagonal of the
  priors' \<open>lam\<close>, and every factor's \<open>eta\<close> and \<open>lam\<close> are added into the blocks of its
  adjacent variables, the diagonal blocks and both off-diagonal copies. The call returns:
  no index is out of range and no shapes differ.
\<close>

theorem joint_distribution_inf_ordered:
  assumes "graph_sized h g" and "id_ordered h g"
  shows "joint_distribution_inf h g = Inr (joint_eta h g, joint_lam h g)"
proof (cases "var_nodes g = []")
  case True
  from assms(1) have "list_all (factor_sized h g) (factors g)"
    by (simp add: graph_sized_def)
  then have none: "list_all (\<lambda>F. adj_var_nodes (factor_at h F) = []) (factors g)"
    using True by (auto simp: list_all_iff factor_sized_def)
  have "by_id h g = []" using True by (simp add: by_id_def)
  then show ?thesis
    using True
    by (simp add: joint_distribution_inf_def factor_loop_no_blocks [OF none] joint_eta_def
        joint_lam_def no_blocks [OF none] prior_eta_def prior_lam_def block_diag_list_def)
next
  case False
  from assms(1) have fs: "list_all (factor_sized h g) (factors g)"
    by (simp add: graph_sized_def)
  have ok: "list_all (factor_ok h g) (factors g)"
    using fs factor_sized_ok [OF assms(2)] by (simp add: list_all_iff)
  note pri = joint_priors_ordered [OF assms(2) False]
  note fit = priors_fit [OF assms(2,1) False]
  note run = factor_loop_blocks [OF fit ok refl]
  show ?thesis
    by (simp add: joint_distribution_inf_def pri run joint_eta_def joint_lam_def)
qed

text \<open>
  On \<open>tri_graph\<close> the joint is \<open>eta = [21, 2, 13]\<close> and
  \<open>lam = [[4, 0, 1], [0, 2, 0], [1, 0, 5]]\<close>.
\<close>

theorem joint_distribution_inf_ordered_witness:
  "graph_sized tri_heap tri_graph \<and> id_ordered tri_heap tri_graph
   \<and> joint_eta tri_heap tri_graph = [21, 2, 13]
   \<and> joint_lam tri_heap tri_graph = Mat 3 [[4, 0, 1], [0, 2, 0], [1, 0, 5]]
   \<and> joint_distribution_inf tri_heap tri_graph
       = Inr (joint_eta tri_heap tri_graph, joint_lam tri_heap tri_graph)"
proof -
  have sized: "graph_sized tri_heap tri_graph" by code_simp
  have ordered: "id_ordered tri_heap tri_graph" by code_simp
  have e: "joint_eta tri_heap tri_graph = [21, 2, 13]" by code_simp
  have l: "joint_lam tri_heap tri_graph = Mat 3 [[4, 0, 1], [0, 2, 0], [1, 0, 5]]" by code_simp
  from joint_distribution_inf_ordered [OF sized ordered] sized ordered e l
  show ?thesis by simp
qed

text \<open>
  The claim as it stands asks for this layout whatever the order of the variable list. The
  method lays the variables out in the order of the list, \<open>var_ix\<close> mapping each id to the
  start of its block there: on \<open>tri_graph_swapped\<close>, whose list is \<open>[v0, v2, v1]\<close>, the blocks
  of the variables 1 and 2 have changed places with respect to the id order.
\<close>

theorem joint_distribution_inf_list_order_counterexample:
  "graph_sized tri_heap tri_graph_swapped
   \<and> map (\<lambda>r. variableID (var_at tri_heap r)) (var_nodes tri_graph_swapped) = [0, 2, 1]
   \<and> joint_eta tri_heap tri_graph_swapped = [21, 2, 13]
   \<and> joint_lam tri_heap tri_graph_swapped = Mat 3 [[4, 0, 1], [0, 2, 0], [1, 0, 5]]
   \<and> joint_distribution_inf tri_heap tri_graph_swapped
       = Inr ([21, 13, 2], Mat 3 [[4, 1, 0], [1, 5, 0], [0, 0, 2]])
   \<and> joint_distribution_inf tri_heap tri_graph_swapped
       \<noteq> Inr (joint_eta tri_heap tri_graph_swapped, joint_lam tri_heap tri_graph_swapped)"
proof -
  have sized: "graph_sized tri_heap tri_graph_swapped" by code_simp
  have ids: "map (\<lambda>r. variableID (var_at tri_heap r)) (var_nodes tri_graph_swapped) = [0, 2, 1]"
    by code_simp
  have e: "joint_eta tri_heap tri_graph_swapped = [21, 2, 13]" by code_simp
  have l: "joint_lam tri_heap tri_graph_swapped = Mat 3 [[4, 0, 1], [0, 2, 0], [1, 0, 5]]"
    by code_simp
  have run: "joint_distribution_inf tri_heap tri_graph_swapped
       = Inr ([21, 13, 2], Mat 3 [[4, 1, 0], [1, 5, 0], [0, 0, 2]])" by code_simp
  from sized ids e l run show ?thesis by simp
qed

end
